theory Spec2Isabelle
  imports Main "HOL-Library.Word"
begin

unbundle bit_operations_syntax

chapter \<open>The model\<close>

section \<open>Request channel: retry on rate limit (createRpcClient)\<close>

text \<open>
  The request handler of \<open>createRpcClient\<close> sends the request with \<open>fetch\<close>, and
  while the answer has status 429 it sleeps and sends again. The remote node is the
  function \<open>fetch\<close> from the number of the attempt (0 for the first request) to what
  that attempt yields: a response, or a rejection of the promise.
  What the handler does is recorded as the number of requests sent, the list of
  the sleeps in milliseconds, and the argument handed to \<open>callback\<close>.
\<close>

record response =
  status :: nat
  statusText :: string
  ok :: bool
  body :: string

datatype fetch_result = Resolved response | Rejected string

datatype callback_arg =
    Result string                 \<comment> \<open>\<open>callback(null, text)\<close>\<close>
  | HttpError nat string string   \<comment> \<open>\<open>callback(new Error(status statusText: text))\<close>\<close>
  | Thrown string                 \<comment> \<open>\<open>callback(err)\<close> of the catch block\<close>

record rpc_run =
  requests :: nat
  sleeps :: "nat list"
  outcome :: callback_arg

definition deliver :: "response \<Rightarrow> callback_arg" where
  "deliver res = (if ok res then Result (body res)
                  else HttpError (status res) (statusText res) (body res))"

text \<open>
  The \<open>for (;;)\<close> loop. Its variables are \<open>too_many_requests_retries\<close>, \<open>waitTime\<close>,
  the number \<open>n\<close> of requests already sent and the sleeps so far (latest first).
  The loop has no bound of its own, so it is a partial function: \<open>None\<close> is a run
  that never leaves the loop.
\<close>

partial_function (option) retry_loop ::
  "(nat \<Rightarrow> fetch_result) \<Rightarrow> bool option \<Rightarrow> int \<Rightarrow> nat \<Rightarrow> nat \<Rightarrow> nat list \<Rightarrow> rpc_run option"
where
  "retry_loop fetch disableRetryOnRateLimit too_many_requests_retries waitTime n slept =
     (case fetch n of
        Rejected err \<Rightarrow>
          Some \<lparr>requests = Suc n, sleeps = rev slept, outcome = Thrown err\<rparr>
      | Resolved res \<Rightarrow>
          if status res \<noteq> 429
          then Some \<lparr>requests = Suc n, sleeps = rev slept, outcome = deliver res\<rparr>
          else if disableRetryOnRateLimit = Some True
          then Some \<lparr>requests = Suc n, sleeps = rev slept, outcome = deliver res\<rparr>
          else if too_many_requests_retries - 1 = 0
          then Some \<lparr>requests = Suc n, sleeps = rev slept, outcome = deliver res\<rparr>
          else retry_loop fetch disableRetryOnRateLimit (too_many_requests_retries - 1)
                 (waitTime * 2) (Suc n) (waitTime # slept))"

definition rpc_request :: "(nat \<Rightarrow> fetch_result) \<Rightarrow> bool option \<Rightarrow> rpc_run option" where
  "rpc_request fetch disableRetryOnRateLimit =
     retry_loop fetch disableRetryOnRateLimit 5 500 0 []"

definition rate_limited :: "fetch_result \<Rightarrow> bool" where
  "rate_limited r = (case r of Resolved res \<Rightarrow> status res = 429 | Rejected _ \<Rightarrow> False)"

definition settle :: "fetch_result \<Rightarrow> callback_arg" where
  "settle r = (case r of Resolved res \<Rightarrow> deliver res | Rejected err \<Rightarrow> Thrown err)"

text \<open>The number of the attempt whose answer is handed to the callback.\<close>

fun last_attempt :: "(nat \<Rightarrow> fetch_result) \<Rightarrow> bool option \<Rightarrow> nat \<Rightarrow> nat \<Rightarrow> nat" where
  "last_attempt fetch d 0 n = n"
| "last_attempt fetch d (Suc budget) n =
     (if rate_limited (fetch n) \<and> d \<noteq> Some True then last_attempt fetch d budget (Suc n) else n)"

definition backoff :: "nat \<Rightarrow> nat list" where
  "backoff k = map (\<lambda>i. 500 * 2 ^ i) [0..<k]"

definition always_429 :: "nat \<Rightarrow> fetch_result" where
  "always_429 n = Resolved \<lparr>status = 429, statusText = ''Too Many Requests'', ok = False, body = ''slow down''\<rparr>"

definition five_429_then_200 :: "nat \<Rightarrow> fetch_result" where
  "five_429_then_200 n =
     (if n < 5 then always_429 n
      else Resolved \<lparr>status = 200, statusText = ''OK'', ok = True, body = ''result''\<rparr>)"


section \<open>Stream channel: subscriptions (Connection)\<close>

text \<open>
  A subscription record holds what its family needs to build the subscribe call
  (the account or program key, the commitment, the filters; here one list of strings)
  and \<open>subscriptionId\<close>, the token of the remote node: \<open>null\<close>, the string
  \<open>'subscribing'\<close> while the call is in flight, or a number. The callback of the record
  plays no part in the bookkeeping and is left out.
  Each family is an object keyed by the local id; \<open>Object.keys\<close> lists integer keys in
  ascending order, so a family is an association list in key order.
\<close>

datatype token = Null | Subscribing | Number nat

record subscription =
  rpcArgs :: "string list"
  subscriptionId :: token

type_synonym subscriptions = "(nat \<times> subscription) list"

record connection =
  rpcWebSocketConnected :: bool
  rpcWebSocketHeartbeat :: bool       \<comment> \<open>the ping timer is set\<close>
  rpcWebSocketIdleTimeout :: bool     \<comment> \<open>the timer that closes the idle socket is pending\<close>
  accountChangeSubscriptions :: subscriptions
  programAccountChangeSubscriptions :: subscriptions
  rootSubscriptions :: subscriptions
  signatureSubscriptions :: subscriptions
  slotSubscriptions :: subscriptions
  slotUpdateSubscriptions :: subscriptions
  logsSubscriptions :: subscriptions

text \<open>What a handler asks of the socket and of the timers, in the order it asks.\<close>

datatype ws_action =
    SetIdleTimeout        \<comment> \<open>\<open>setTimeout(close, 500)\<close>\<close>
  | ClearIdleTimeout
  | Connect               \<comment> \<open>\<open>this._rpcWebSocket.connect()\<close>\<close>
  | Call string "string list"   \<comment> \<open>\<open>this._rpcWebSocket.call(rpcMethod, rpcArgs)\<close>\<close>

text \<open>
  \<open>_subscribe\<close> up to its first \<open>await\<close>: a record whose token is \<open>null\<close> is marked
  \<open>'subscribing'\<close> and the call is sent; any other record is left alone.
\<close>

definition subscribe :: "string \<Rightarrow> subscription \<Rightarrow> subscription \<times> ws_action list" where
  "subscribe rpcMethod sub =
     (if subscriptionId sub = Null
      then (sub\<lparr>subscriptionId := Subscribing\<rparr>, [Call rpcMethod (rpcArgs sub)])
      else (sub, []))"

text \<open>The loop \<open>for (let id of keys)\<close> over one family.\<close>

fun subscribe_all :: "string \<Rightarrow> subscriptions \<Rightarrow> subscriptions \<times> ws_action list" where
  "subscribe_all rpcMethod [] = ([], [])"
| "subscribe_all rpcMethod ((i, sub) # rest) =
     (let (sub', a) = subscribe rpcMethod sub;
          (rest', as) = subscribe_all rpcMethod rest
      in ((i, sub') # rest', a @ as))"

definition updateSubscriptions :: "connection \<Rightarrow> connection \<times> ws_action list" where
  "updateSubscriptions c =
     (if accountChangeSubscriptions c = [] \<and> programAccountChangeSubscriptions c = []
         \<and> slotSubscriptions c = [] \<and> slotUpdateSubscriptions c = []
         \<and> signatureSubscriptions c = [] \<and> rootSubscriptions c = []
         \<and> logsSubscriptions c = []
      then (if rpcWebSocketConnected c
            then (c\<lparr>rpcWebSocketConnected := False, rpcWebSocketIdleTimeout := True\<rparr>,
                  [SetIdleTimeout])
            else (c, []))
      else
        let (c1, a1) =
              (if rpcWebSocketIdleTimeout c
               then (c\<lparr>rpcWebSocketIdleTimeout := False, rpcWebSocketConnected := True\<rparr>,
                     [ClearIdleTimeout])
               else (c, []))
        in if \<not> rpcWebSocketConnected c1 then (c1, a1 @ [Connect])
           else
             let (acc, a2) = subscribe_all ''accountSubscribe'' (accountChangeSubscriptions c1);
                 (prog, a3) = subscribe_all ''programSubscribe'' (programAccountChangeSubscriptions c1);
                 (slot, a4) = subscribe_all ''slotSubscribe'' (slotSubscriptions c1);
                 (slotUpd, a5) = subscribe_all ''slotsUpdatesSubscribe'' (slotUpdateSubscriptions c1);
                 (sig, a6) = subscribe_all ''signatureSubscribe'' (signatureSubscriptions c1);
                 (root, a7) = subscribe_all ''rootSubscribe'' (rootSubscriptions c1);
                 (logs, a8) = subscribe_all ''logsSubscribe'' (logsSubscriptions c1)
             in (c1\<lparr>accountChangeSubscriptions := acc,
                     programAccountChangeSubscriptions := prog,
                     slotSubscriptions := slot,
                     slotUpdateSubscriptions := slotUpd,
                     signatureSubscriptions := sig,
                     rootSubscriptions := root,
                     logsSubscriptions := logs\<rparr>,
                 a1 @ a2 @ a3 @ a4 @ a5 @ a6 @ a7 @ a8))"

text \<open>\<open>Object.values(family).forEach(s => s.subscriptionId = null)\<close>\<close>

definition reset_family :: "subscriptions \<Rightarrow> subscriptions" where
  "reset_family subs = map (\<lambda>(i, s). (i, s\<lparr>subscriptionId := Null\<rparr>)) subs"

definition resetSubscriptions :: "connection \<Rightarrow> connection" where
  "resetSubscriptions c =
     c\<lparr>accountChangeSubscriptions := reset_family (accountChangeSubscriptions c),
       programAccountChangeSubscriptions := reset_family (programAccountChangeSubscriptions c),
       rootSubscriptions := reset_family (rootSubscriptions c),
       signatureSubscriptions := reset_family (signatureSubscriptions c),
       slotSubscriptions := reset_family (slotSubscriptions c),
       slotUpdateSubscriptions := reset_family (slotUpdateSubscriptions c)\<rparr>"

definition wsOnOpen :: "connection \<Rightarrow> connection \<times> ws_action list" where
  "wsOnOpen c =
     updateSubscriptions (c\<lparr>rpcWebSocketConnected := True, rpcWebSocketHeartbeat := True\<rparr>)"

definition wsOnClose :: "nat \<Rightarrow> connection \<Rightarrow> connection \<times> ws_action list" where
  "wsOnClose code c =
     (let c' = (if rpcWebSocketHeartbeat c then c\<lparr>rpcWebSocketHeartbeat := False\<rparr> else c)
      in if code = 1000 then updateSubscriptions c'
         else (resetSubscriptions c', []))"

text \<open>
  A connected client with one acknowledged logs subscription (local id 1, remote
  token 42) and one acknowledged account subscription (local id 1, remote token 41).
\<close>

definition logs_client :: connection where
  "logs_client =
     \<lparr>rpcWebSocketConnected = True, rpcWebSocketHeartbeat = True,
      rpcWebSocketIdleTimeout = False,
      accountChangeSubscriptions =
        [(1, \<lparr>rpcArgs = [''account'', ''base64''], subscriptionId = Number 41\<rparr>)],
      programAccountChangeSubscriptions = [],
      rootSubscriptions = [], signatureSubscriptions = [],
      slotSubscriptions = [], slotUpdateSubscriptions = [],
      logsSubscriptions =
        [(1, \<lparr>rpcArgs = [''all''], subscriptionId = Number 42\<rparr>)]\<rparr>"


section \<open>Bytes, big numbers and base 58\<close>

text \<open>
  A \<open>Buffer\<close> or \<open>Uint8Array\<close> is a list of bytes. \<open>BN\<close> (bn.js) is an unbounded
  natural number here: \<open>new BN(bytes)\<close> reads the bytes big-endian, and
  \<open>toArrayLike(Buffer)\<close> writes the shortest big-endian form (one zero byte for 0).
  \<open>bs58\<close> is the base-58 codec of the Bitcoin alphabet: every leading zero byte is
  the character 1, the other bytes are one number written in base 58, and \<open>decode\<close>
  throws on a character outside the alphabet (\<open>None\<close>). bn.js and bs58 are imported
  libraries: these definitions give the arithmetic those libraries document.
\<close>

type_synonym byte = "8 word"

text \<open>The digits of \<open>n\<close> in base \<open>b\<close>, most significant first; none for 0.\<close>

function digits_be :: "nat \<Rightarrow> nat \<Rightarrow> nat list" where
  "digits_be b n = (if n = 0 \<or> b < 2 then [] else digits_be b (n div b) @ [n mod b])"
  by pat_completeness auto
termination
proof (relation "measure snd")
  show "wf (measure snd)" by simp
next
  fix b n :: nat
  assume "\<not> (n = 0 \<or> b < 2)"
  then have "n div b < n" by (intro div_less_dividend) auto
  then show "((b, n div b), (b, n)) \<in> measure snd" by simp
qed

fun from_digits :: "nat \<Rightarrow> nat \<Rightarrow> nat list \<Rightarrow> nat" where
  "from_digits b a [] = a"
| "from_digits b a (d # ds) = from_digits b (a * b + d) ds"

definition of_digits :: "nat \<Rightarrow> nat list \<Rightarrow> nat" where
  "of_digits b ds = from_digits b 0 ds"

definition BN_of_bytes :: "byte list \<Rightarrow> nat" where
  "BN_of_bytes bs = of_digits 256 (map unat bs)"

definition BN_toArrayLike :: "nat \<Rightarrow> byte list" where
  "BN_toArrayLike n = (if n = 0 then [0] else map of_nat (digits_be 256 n))"

definition ALPHABET :: string where
  "ALPHABET = ''123456789ABCDEFGHJKLMNPQRSTUVWXYZabcdefghijkmnopqrstuvwxyz''"

fun index_of :: "'a \<Rightarrow> 'a list \<Rightarrow> nat option" where
  "index_of c [] = None"
| "index_of c (x # xs) = (if x = c then Some 0 else map_option Suc (index_of c xs))"

definition bs58_encode :: "byte list \<Rightarrow> string" where
  "bs58_encode source =
     replicate (length (takeWhile (\<lambda>b. b = 0) source)) (CHR ''1'') @
     map (\<lambda>d. ALPHABET ! d)
       (digits_be 58 (BN_of_bytes (dropWhile (\<lambda>b. b = 0) source)))"

definition bs58_decode :: "string \<Rightarrow> byte list option" where
  "bs58_decode s =
     (if list_ex (\<lambda>c. index_of c ALPHABET = None) s then None
      else Some (replicate (length (takeWhile (\<lambda>c. c = CHR ''1'') s)) 0 @
                 map of_nat (digits_be 256 (of_digits 58
                   (map (\<lambda>c. the (index_of c ALPHABET)) (dropWhile (\<lambda>c. c = CHR ''1'') s))))))"

declare digits_be.simps [simp del]

lemma digits_be_0 [simp]: "digits_be b 0 = []"
  by (simp add: digits_be.simps)

lemma digits_be_rec:
  "0 < n \<Longrightarrow> 2 \<le> b \<Longrightarrow> digits_be b n = digits_be b (n div b) @ [n mod b]"
  by (subst digits_be.simps) simp


section \<open>PublicKey\<close>

text \<open>
  A \<open>PublicKey\<close> holds \<open>_bn\<close>, a number that the constructor keeps within 32 bytes
  (\<open>byteLength() > 32\<close> throws): a 256-bit word. \<open>equals\<close> compares the numbers.
\<close>

type_synonym PublicKey = "256 word"

datatype error =
    InvalidPublicKeyInput          \<comment> \<open>\<open>Invalid public key input\<close>\<close>
  | NonBase58Character             \<comment> \<open>thrown by \<open>bs58.decode\<close>\<close>
  | MaxSeedLengthExceeded          \<comment> \<open>the \<open>TypeError\<close> of \<open>createProgramAddress\<close>\<close>
  | InvalidSeeds                   \<comment> \<open>\<open>Invalid seeds, address must fall off the curve\<close>\<close>
  | NonceExhausted                 \<comment> \<open>\<open>Unable to find a viable program address nonce\<close>\<close>
  | RecentBlockhashRequired
  | FeePayerRequired
  | UndefinedProgramId nat
  | UnknownSigner PublicKey
  | UndefinedPublicKey             \<comment> \<open>\<open>TypeError\<close>: a signature pair without \<open>publicKey\<close> is read\<close>
  | AssertionFailed
  | RangeError                     \<comment> \<open>a write past the end of a buffer, or a value outside \<open>u8\<close>\<close>
  | BlobLength                     \<comment> \<open>\<open>Blob.encode\<close>: the source is not of the layout's length\<close>
  | NoSigners
  | BadSecretKey                   \<comment> \<open>thrown by \<open>nacl.sign.detached\<close>\<close>
  | ReadPastEnd                    \<comment> \<open>a field read as \<open>undefined\<close> from a buffer that ended\<close>

definition toBuffer :: "PublicKey \<Rightarrow> byte list" where
  "toBuffer k =
     (let b = BN_toArrayLike (unat k)
      in if length b = 32 then b else replicate (32 - length b) 0 @ b)"

definition toBase58 :: "PublicKey \<Rightarrow> string" where
  "toBase58 k = bs58_encode (toBuffer k)"

text \<open>\<open>new PublicKey(value)\<close> for a byte array, and for a string.\<close>

definition PublicKey_of_bytes :: "byte list \<Rightarrow> error + PublicKey" where
  "PublicKey_of_bytes bs =
     (if BN_of_bytes bs < 2 ^ 256 then Inr (of_nat (BN_of_bytes bs)) else Inl InvalidPublicKeyInput)"

definition PublicKey_of_string :: "string \<Rightarrow> error + PublicKey" where
  "PublicKey_of_string s =
     (case bs58_decode s of
        None \<Rightarrow> Inl NonBase58Character
      | Some decoded \<Rightarrow>
          if length decoded \<noteq> 32 then Inl InvalidPublicKeyInput
          else PublicKey_of_bytes decoded)"


section \<open>Transaction: compileMessage\<close>

record AccountMeta =
  pubkey :: PublicKey
  isSigner :: bool
  isWritable :: bool

text \<open>
  An instruction is an object: \<open>identity\<close> stands for the object itself, which is what
  \<open>==\<close> and \<open>!=\<close> compare, so two instructions of the same content can differ in it.
  \<open>programId\<close> is optional: \<open>compileMessage\<close> checks it against \<open>undefined\<close>.
\<close>

record TransactionInstruction =
  identity :: nat
  keys :: "AccountMeta list"
  programId :: "PublicKey option"
  data :: "byte list"

text \<open>
  A pair of the signatures list: \<open>signature\<close> is \<open>null\<close> or 64 bytes; \<open>publicKey\<close> is
  optional, since \<open>compileMessage\<close> tests it before it takes it as the fee payer.
\<close>

record SignaturePubkeyPair =
  signature :: "byte list option"
  publicKey :: "PublicKey option"

record NonceInformation =
  nonce :: string
  nonceInstruction :: TransactionInstruction

record Transaction =
  signatures :: "SignaturePubkeyPair list"
  feePayer :: "PublicKey option"
  instructions :: "TransactionInstruction list"
  recentBlockhash :: "string option"
  nonceInfo :: "NonceInformation option"

record MessageHeader =
  numRequiredSignatures :: nat
  numReadonlySignedAccounts :: nat
  numReadonlyUnsignedAccounts :: nat

text \<open>A compiled instruction; \<open>data58\<close> is its field \<open>data\<close>, a base-58 string.\<close>

record CompiledInstruction =
  programIdIndex :: nat
  accounts :: "nat list"
  data58 :: string

text \<open>
  \<open>Message\<close>; \<open>msg_recentBlockhash\<close> and \<open>msg_instructions\<close> are its fields
  \<open>recentBlockhash\<close> and \<open>instructions\<close>.
\<close>

record Message =
  header :: MessageHeader
  accountKeys :: "PublicKey list"
  msg_recentBlockhash :: string
  msg_instructions :: "CompiledInstruction list"

definition isAccountWritable :: "Message \<Rightarrow> nat \<Rightarrow> bool" where
  "isAccountWritable m i =
     (int i < int (numRequiredSignatures (header m)) - int (numReadonlySignedAccounts (header m))
      \<or> (i \<ge> numRequiredSignatures (header m)
         \<and> int i < int (length (accountKeys m)) - int (numReadonlyUnsignedAccounts (header m))))"

text \<open>\<open>Array.prototype.findIndex\<close>: \<open>None\<close> is the result -1.\<close>

fun findIndex :: "('a \<Rightarrow> bool) \<Rightarrow> 'a list \<Rightarrow> nat option" where
  "findIndex P [] = None"
| "findIndex P (x # xs) = (if P x then Some 0 else map_option Suc (findIndex P xs))"

text \<open>Mapping a function that can throw over an array: the first error ends it.\<close>

fun traverse :: "('a \<Rightarrow> error + 'b) \<Rightarrow> 'a list \<Rightarrow> error + 'b list" where
  "traverse f [] = Inr []"
| "traverse f (x # xs) =
     (case f x of
        Inl e \<Rightarrow> Inl e
      | Inr y \<Rightarrow> (case traverse f xs of Inl e \<Rightarrow> Inl e | Inr ys \<Rightarrow> Inr (y # ys)))"

text \<open>
  The durable-nonce step at the head of \<open>compileMessage\<close>. The source compares the
  first instruction with \<open>nonceInfo.nonceInstruction\<close> by \<open>!=\<close>, which on two objects is
  the comparison of their identities; on an empty list \<open>instructions[0]\<close> is \<open>undefined\<close>,
  which differs from every object.
\<close>

definition apply_nonceInfo :: "Transaction \<Rightarrow> Transaction" where
  "apply_nonceInfo tx =
     (case nonceInfo tx of
        None \<Rightarrow> tx
      | Some ni \<Rightarrow>
          if (case instructions tx of [] \<Rightarrow> True | i # _ \<Rightarrow> identity i \<noteq> identity (nonceInstruction ni))
          then tx\<lparr>recentBlockhash := Some (nonce ni),
                  instructions := nonceInstruction ni # instructions tx\<rparr>
          else tx)"

definition choose_feePayer :: "Transaction \<Rightarrow> error + PublicKey" where
  "choose_feePayer tx =
     (case feePayer tx of
        Some k \<Rightarrow> Inr k
      | None \<Rightarrow>
          (case signatures tx of
             [] \<Rightarrow> Inl FeePayerRequired
           | p # _ \<Rightarrow> (case publicKey p of Some k \<Rightarrow> Inr k | None \<Rightarrow> Inl FeePayerRequired)))"

text \<open>The loop that throws at the first instruction whose program id is undefined.\<close>

fun check_programIds :: "nat \<Rightarrow> TransactionInstruction list \<Rightarrow> error + (PublicKey \<times> TransactionInstruction) list" where
  "check_programIds i [] = Inr []"
| "check_programIds i (instruction # rest) =
     (case programId instruction of
        None \<Rightarrow> Inl (UndefinedProgramId i)
      | Some p \<Rightarrow>
          (case check_programIds (Suc i) rest of
             Inl e \<Rightarrow> Inl e
           | Inr ps \<Rightarrow> Inr ((p, instruction) # ps)))"

text \<open>
  The first \<open>forEach\<close>: the metas of every instruction in order, and the program ids
  (as base-58 strings) in the order they are first seen.
\<close>

fun collect_programIds :: "string list \<Rightarrow> (PublicKey \<times> TransactionInstruction) list \<Rightarrow> string list" where
  "collect_programIds programIds [] = programIds"
| "collect_programIds programIds ((p, instruction) # rest) =
     (if toBase58 p \<in> set programIds then collect_programIds programIds rest
      else collect_programIds (programIds @ [toBase58 p]) rest)"

definition programId_meta :: "string \<Rightarrow> error + AccountMeta" where
  "programId_meta s =
     (case PublicKey_of_string s of
        Inl e \<Rightarrow> Inl e
      | Inr k \<Rightarrow> Inr \<lparr>pubkey = k, isSigner = False, isWritable = False\<rparr>)"

definition collect_metas :: "(PublicKey \<times> TransactionInstruction) list \<Rightarrow> error + AccountMeta list" where
  "collect_metas instrs =
     (case traverse programId_meta (collect_programIds [] instrs) of
        Inl e \<Rightarrow> Inl e
      | Inr ps \<Rightarrow> Inr (concat (map (\<lambda>(p, instruction). keys instruction) instrs) @ ps))"

text \<open>
  The comparator of the sort, and the sort. \<open>Array.prototype.sort\<close> is stable, and this
  comparator is a total preorder, so the result is the one of the stable insertion sort.
\<close>

definition compare_metas :: "AccountMeta \<Rightarrow> AccountMeta \<Rightarrow> int" where
  "compare_metas x y =
     (let checkSigner = (if isSigner x = isSigner y then 0 else if isSigner x then - 1 else 1);
          checkWritable = (if isWritable x = isWritable y then 0 else if isWritable x then - 1 else 1)
      in if checkSigner \<noteq> 0 then checkSigner else checkWritable)"

fun insert_sorted :: "('a \<Rightarrow> 'a \<Rightarrow> int) \<Rightarrow> 'a \<Rightarrow> 'a list \<Rightarrow> 'a list" where
  "insert_sorted cmp x [] = [x]"
| "insert_sorted cmp x (y # ys) =
     (if cmp x y \<le> 0 then x # y # ys else y # insert_sorted cmp x ys)"

fun Array_sort :: "('a \<Rightarrow> 'a \<Rightarrow> int) \<Rightarrow> 'a list \<Rightarrow> 'a list" where
  "Array_sort cmp [] = []"
| "Array_sort cmp (x # xs) = insert_sorted cmp x (Array_sort cmp xs)"

text \<open>
  Culling the duplicates: a meta whose key is already in \<open>uniqueMetas\<close> gives its
  \<open>isWritable\<close> to the entry that is there, and is dropped.
\<close>

fun cull :: "AccountMeta list \<Rightarrow> AccountMeta list \<Rightarrow> AccountMeta list" where
  "cull uniqueMetas [] = uniqueMetas"
| "cull uniqueMetas (accountMeta # rest) =
     (case findIndex (\<lambda>x. toBase58 (pubkey x) = toBase58 (pubkey accountMeta)) uniqueMetas of
        Some uniqueIndex \<Rightarrow>
          cull (uniqueMetas[uniqueIndex :=
                  (uniqueMetas ! uniqueIndex)\<lparr>isWritable :=
                     isWritable (uniqueMetas ! uniqueIndex) \<or> isWritable accountMeta\<rparr>]) rest
      | None \<Rightarrow> cull (uniqueMetas @ [accountMeta]) rest)"

definition move_feePayer :: "PublicKey \<Rightarrow> AccountMeta list \<Rightarrow> AccountMeta list" where
  "move_feePayer payer uniqueMetas =
     (case findIndex (\<lambda>x. pubkey x = payer) uniqueMetas of
        Some feePayerIndex \<Rightarrow>
          (uniqueMetas ! feePayerIndex)\<lparr>isSigner := True, isWritable := True\<rparr> #
          (take feePayerIndex uniqueMetas @ drop (Suc feePayerIndex) uniqueMetas)
      | None \<Rightarrow> \<lparr>pubkey = payer, isSigner = True, isWritable = True\<rparr> # uniqueMetas)"

text \<open>
  The loop over the signatures: an unknown signer throws, a known key that is not yet a
  signer becomes one (with a warning).
\<close>

fun check_signers :: "SignaturePubkeyPair list \<Rightarrow> AccountMeta list \<Rightarrow> error + AccountMeta list" where
  "check_signers [] uniqueMetas = Inr uniqueMetas"
| "check_signers (s # rest) uniqueMetas =
     (case publicKey s of
        None \<Rightarrow> Inl UndefinedPublicKey
      | Some k \<Rightarrow>
          (case findIndex (\<lambda>x. pubkey x = k) uniqueMetas of
             None \<Rightarrow> Inl (UnknownSigner k)
           | Some uniqueIndex \<Rightarrow>
               check_signers rest
                 (if \<not> isSigner (uniqueMetas ! uniqueIndex)
                  then uniqueMetas[uniqueIndex := (uniqueMetas ! uniqueIndex)\<lparr>isSigner := True\<rparr>]
                  else uniqueMetas)))"

text \<open>The account metas as they stand when the header is counted.\<close>

definition compile_metas ::
  "PublicKey \<Rightarrow> SignaturePubkeyPair list \<Rightarrow> (PublicKey \<times> TransactionInstruction) list \<Rightarrow> error + AccountMeta list"
where
  "compile_metas payer sigs instrs =
     (case collect_metas instrs of
        Inl e \<Rightarrow> Inl e
      | Inr accountMetas \<Rightarrow>
          check_signers sigs
            (move_feePayer payer (cull [] (Array_sort compare_metas accountMetas))))"

definition compile_header :: "AccountMeta list \<Rightarrow> MessageHeader" where
  "compile_header uniqueMetas =
     \<lparr>numRequiredSignatures = length (filter isSigner uniqueMetas),
      numReadonlySignedAccounts =
        length (filter (\<lambda>m. isSigner m \<and> \<not> isWritable m) uniqueMetas),
      numReadonlyUnsignedAccounts =
        length (filter (\<lambda>m. \<not> isSigner m \<and> \<not> isWritable m) uniqueMetas)\<rparr>"

definition compile_accountKeys :: "AccountMeta list \<Rightarrow> string list" where
  "compile_accountKeys uniqueMetas =
     map (\<lambda>m. toBase58 (pubkey m)) (filter isSigner uniqueMetas) @
     map (\<lambda>m. toBase58 (pubkey m)) (filter (\<lambda>m. \<not> isSigner m) uniqueMetas)"

text \<open>\<open>indexOf\<close> with the assertion that follows it: -1 fails the assertion.\<close>

definition indexOf_checked :: "string list \<Rightarrow> string \<Rightarrow> error + nat" where
  "indexOf_checked keyTable s =
     (case index_of s keyTable of None \<Rightarrow> Inl AssertionFailed | Some i \<Rightarrow> Inr i)"

definition compile_instruction ::
  "string list \<Rightarrow> PublicKey \<times> TransactionInstruction \<Rightarrow> error + CompiledInstruction"
where
  "compile_instruction keyTable instr =
     (case indexOf_checked keyTable (toBase58 (fst instr)) of
        Inl e \<Rightarrow> Inl e
      | Inr p \<Rightarrow>
          (case traverse (\<lambda>meta. indexOf_checked keyTable (toBase58 (pubkey meta)))
                  (keys (snd instr)) of
             Inl e \<Rightarrow> Inl e
           | Inr idxs \<Rightarrow>
               Inr \<lparr>programIdIndex = p, accounts = idxs, data58 = bs58_encode (data (snd instr))\<rparr>))"

text \<open>\<open>new Message(args)\<close>: every account key string becomes a \<open>PublicKey\<close>.\<close>

definition Message_new ::
  "MessageHeader \<Rightarrow> string list \<Rightarrow> string \<Rightarrow> CompiledInstruction list \<Rightarrow> error + Message"
where
  "Message_new h ks bh instrs =
     (case traverse PublicKey_of_string ks of
        Inl e \<Rightarrow> Inl e
      | Inr pks \<Rightarrow>
          Inr \<lparr>header = h, accountKeys = pks, msg_recentBlockhash = bh, msg_instructions = instrs\<rparr>)"

definition build_message ::
  "string \<Rightarrow> (PublicKey \<times> TransactionInstruction) list \<Rightarrow> AccountMeta list \<Rightarrow> error + Message"
where
  "build_message bh instrs uniqueMetas =
     (case traverse (compile_instruction (compile_accountKeys uniqueMetas)) instrs of
        Inl e \<Rightarrow> Inl e
      | Inr cis \<Rightarrow>
          Message_new (compile_header uniqueMetas) (compile_accountKeys uniqueMetas) bh cis)"

text \<open>
  \<open>compileMessage\<close> after the durable-nonce step. \<open>!recentBlockhash\<close> holds for
  \<open>undefined\<close> and for the empty string.
\<close>

definition compile_checked :: "Transaction \<Rightarrow> error + (AccountMeta list \<times> Message)" where
  "compile_checked tx =
     (case recentBlockhash tx of
        None \<Rightarrow> Inl RecentBlockhashRequired
      | Some bh \<Rightarrow>
          if bh = [] then Inl RecentBlockhashRequired
          else
            (case choose_feePayer tx of
               Inl e \<Rightarrow> Inl e
             | Inr payer \<Rightarrow>
                 (case check_programIds 0 (instructions tx) of
                    Inl e \<Rightarrow> Inl e
                  | Inr instrs \<Rightarrow>
                      (case compile_metas payer (signatures tx) instrs of
                         Inl e \<Rightarrow> Inl e
                       | Inr uniqueMetas \<Rightarrow>
                           (case build_message bh instrs uniqueMetas of
                              Inl e \<Rightarrow> Inl e
                            | Inr m \<Rightarrow> Inr (uniqueMetas, m))))))"

text \<open>
  \<open>compileMessage\<close>: the message or the error thrown, and the transaction as the call
  leaves it (the durable-nonce step changes it, also when the call throws afterwards).
\<close>

definition compileMessage :: "Transaction \<Rightarrow> (error + Message) \<times> Transaction" where
  "compileMessage tx =
     (case compile_checked (apply_nonceInfo tx) of
        Inl e \<Rightarrow> (Inl e, apply_nonceInfo tx)
      | Inr (uniqueMetas, m) \<Rightarrow> (Inr m, apply_nonceInfo tx))"

text \<open>The metas \<open>compileMessage\<close> has built when it counts the header.\<close>

definition compiled_metas :: "Transaction \<Rightarrow> AccountMeta list option" where
  "compiled_metas tx =
     (case compile_checked (apply_nonceInfo tx) of
        Inl e \<Rightarrow> None
      | Inr (uniqueMetas, m) \<Rightarrow> Some uniqueMetas)"


section \<open>Wire codec: Message.serialize and Message.from\<close>

text \<open>The 32-bit signed value of a number, as the bitwise operators of the source give it.\<close>

definition to_int32 :: "int \<Rightarrow> int" where
  "to_int32 x = signed_take_bit 31 x"

text \<open>
  \<open>encodeLength\<close> pushes the 7-bit groups of \<open>len\<close>, lowest first, each but the last with
  the bit \<open>0x80\<close> set. The operators \<open>&\<close> and \<open>>>=\<close> work on the 32-bit signed form of
  \<open>rem_len\<close>, and \<open>>>\<close> keeps the sign. So a length from \<open>2^31\<close> to \<open>2^32 - 1\<close> is read
  as a negative number, which the shift takes to -1 and never to 0: the loop does not
  end, which is the value \<open>None\<close>. The result is the array \<open>bytes\<close>, which every caller
  passes empty.
\<close>

partial_function (option) encodeLength_loop :: "int \<Rightarrow> nat list option" where
  "encodeLength_loop rem_len =
     (let elem = to_int32 rem_len AND 0x7f;
          rem_len' = drop_bit 7 (to_int32 rem_len)
      in if rem_len' = 0 then Some [nat elem]
         else Option.bind (encodeLength_loop rem_len')
                (\<lambda>bytes. Some (nat (elem OR 0x80) # bytes)))"

definition encodeLength :: "nat \<Rightarrow> nat list option" where
  "encodeLength len = encodeLength_loop (int len)"

text \<open>
  \<open>decodeLength\<close> shifts bytes off the array until one has the bit \<open>0x80\<close> clear. On the
  empty array \<open>shift\<close> yields \<open>undefined\<close>, which the operators read as 0: the loop ends.
  The result is the length and the array that is left.
\<close>

fun decodeLength_loop :: "int \<Rightarrow> nat \<Rightarrow> nat list \<Rightarrow> int \<times> nat list" where
  "decodeLength_loop len sz [] = (len, [])"
| "decodeLength_loop len sz (elem # bytes) =
     (let len' = to_int32 (len OR to_int32 (push_bit ((sz * 7) mod 32) (int elem AND 0x7f)))
      in if elem AND 0x80 = 0 then (len', bytes)
         else decodeLength_loop len' (sz + 1) bytes)"

definition decodeLength :: "nat list \<Rightarrow> int \<times> nat list" where
  "decodeLength bytes = decodeLength_loop 0 0 bytes"

text \<open>\<open>Array.prototype.slice\<close>, with its negative indices counted from the end.\<close>

definition clamp_index :: "nat \<Rightarrow> int \<Rightarrow> nat" where
  "clamp_index n i = (if i < 0 then nat (max (int n + i) 0) else min (nat i) n)"

definition slice :: "'a list \<Rightarrow> int \<Rightarrow> int \<Rightarrow> 'a list" where
  "slice xs start fin = drop (clamp_index (length xs) start) (take (clamp_index (length xs) fin) xs)"

definition slice_from :: "'a list \<Rightarrow> int \<Rightarrow> 'a list" where
  "slice_from xs start = drop (clamp_index (length xs) start) xs"

text \<open>
  Buffers. \<open>Buffer.from(array)\<close> keeps the low 8 bits of every number; \<open>copy\<close> writes
  what fits into the target and drops the rest without an error.
\<close>

definition PACKET_DATA_SIZE :: nat where
  "PACKET_DATA_SIZE = 1280 - 40 - 8"

definition PUBKEY_LENGTH :: nat where
  "PUBKEY_LENGTH = 32"

definition Buffer_from :: "nat list \<Rightarrow> byte list" where
  "Buffer_from xs = map of_nat xs"

definition Buffer_alloc :: "nat \<Rightarrow> byte list" where
  "Buffer_alloc n = replicate n 0"

definition Buffer_copy :: "byte list \<Rightarrow> byte list \<Rightarrow> nat \<Rightarrow> byte list" where
  "Buffer_copy src target targetStart =
     take targetStart target @ take (length target - targetStart) src @
     drop (targetStart + min (length src) (length target - targetStart)) target"

text \<open>
  The layouts of \<open>@solana/buffer-layout\<close> (an imported library) write into a buffer at
  an offset and throw \<open>RangeError\<close> when a field does not fit. A \<open>blob\<close> also throws
  when its source is not of the layout's length, and \<open>u8\<close> when the number is not a
  byte. A \<open>seq\<close> of \<open>u8\<close> writes its bytes one by one, so a sequence that does not fit
  throws as a blob of its length does.
\<close>

definition write_at :: "byte list \<Rightarrow> nat \<Rightarrow> byte list \<Rightarrow> error + byte list" where
  "write_at buf offset src =
     (if offset + length src > length buf then Inl RangeError
      else Inr (take offset buf @ src @ drop (offset + length src) buf))"

definition encode_u8 :: "nat \<Rightarrow> byte list \<Rightarrow> nat \<Rightarrow> error + byte list" where
  "encode_u8 v buf offset = (if v > 255 then Inl RangeError else write_at buf offset [of_nat v])"

definition encode_blob :: "nat \<Rightarrow> byte list \<Rightarrow> byte list \<Rightarrow> nat \<Rightarrow> error + byte list" where
  "encode_blob span src buf offset =
     (if length src \<noteq> span then Inl BlobLength else write_at buf offset src)"

text \<open>A structure of blobs: the fields one after the other; the result is the buffer and the span.\<close>

fun encode_blobs :: "(nat \<times> byte list) list \<Rightarrow> byte list \<Rightarrow> nat \<Rightarrow> error + byte list \<times> nat" where
  "encode_blobs [] buf offset = Inr (buf, 0)"
| "encode_blobs ((span, src) # flds) buf offset =
     (case encode_blob span src buf offset of
        Inl e \<Rightarrow> Inl e
      | Inr buf' \<Rightarrow>
          (case encode_blobs flds buf' (offset + span) of
             Inl e \<Rightarrow> Inl e
           | Inr (buf'', n) \<Rightarrow> Inr (buf'', span + n)))"

text \<open>An instruction as \<open>serialize\<close> prepares it: the counts and the payload are buffers.\<close>

record prepared_instruction =
  prep_programIdIndex :: nat
  keyIndicesCount :: "byte list"
  keyIndices :: "byte list"
  dataLength :: "byte list"
  prep_data :: "byte list"

definition prepare_instruction :: "CompiledInstruction \<Rightarrow> (error + prepared_instruction) option" where
  "prepare_instruction instruction =
     (case bs58_decode (data58 instruction) of
        None \<Rightarrow> Some (Inl NonBase58Character)
      | Some d \<Rightarrow>
          (case encodeLength (length (accounts instruction)) of
             None \<Rightarrow> None
           | Some keyIndicesCount' \<Rightarrow>
               (case encodeLength (length d) of
                  None \<Rightarrow> None
                | Some dataCount \<Rightarrow>
                    Some (Inr \<lparr>prep_programIdIndex = programIdIndex instruction,
                               keyIndicesCount = Buffer_from keyIndicesCount',
                               keyIndices = Buffer_from (accounts instruction),
                               dataLength = Buffer_from dataCount,
                               prep_data = d\<rparr>))))"

text \<open>
  \<open>Array.prototype.map\<close> with a callback that can throw or not return: the first call
  that does so ends it.
\<close>

fun map_calls :: "('a \<Rightarrow> (error + 'b) option) \<Rightarrow> 'a list \<Rightarrow> (error + 'b list) option" where
  "map_calls f [] = Some (Inr [])"
| "map_calls f (x # xs) =
     (case f x of
        None \<Rightarrow> None
      | Some (Inl e) \<Rightarrow> Some (Inl e)
      | Some (Inr y) \<Rightarrow>
          (case map_calls f xs of
             None \<Rightarrow> None
           | Some (Inl e) \<Rightarrow> Some (Inl e)
           | Some (Inr ys) \<Rightarrow> Some (Inr (y # ys))))"

text \<open>\<open>instructionLayout.encode(instruction, instructionBuffer, instructionBufferLength)\<close>\<close>

definition encode_instruction :: "prepared_instruction \<Rightarrow> byte list \<Rightarrow> nat \<Rightarrow> error + byte list \<times> nat" where
  "encode_instruction p buf offset =
     (case encode_u8 (prep_programIdIndex p) buf offset of
        Inl e \<Rightarrow> Inl e
      | Inr buf' \<Rightarrow>
          (case encode_blobs
                  [(length (keyIndicesCount p), keyIndicesCount p),
                   (length (keyIndices p), keyIndices p),
                   (length (dataLength p), dataLength p),
                   (length (prep_data p), prep_data p)] buf' (offset + 1) of
             Inl e \<Rightarrow> Inl e
           | Inr (buf'', n) \<Rightarrow> Inr (buf'', 1 + n)))"

fun encode_instructions :: "prepared_instruction list \<Rightarrow> byte list \<Rightarrow> nat \<Rightarrow> error + byte list \<times> nat" where
  "encode_instructions [] instructionBuffer instructionBufferLength =
     Inr (instructionBuffer, instructionBufferLength)"
| "encode_instructions (p # ps) instructionBuffer instructionBufferLength =
     (case encode_instruction p instructionBuffer instructionBufferLength of
        Inl e \<Rightarrow> Inl e
      | Inr (buf, n) \<Rightarrow> encode_instructions ps buf (instructionBufferLength + n))"

text \<open>
  \<open>serialize\<close> from the statement that allocates \<open>instructionBuffer\<close> on: the key count,
  the prepared instructions and the instruction count are there.
\<close>

definition serialize_buffers ::
  "Message \<Rightarrow> nat list \<Rightarrow> prepared_instruction list \<Rightarrow> nat list \<Rightarrow> error + byte list"
where
  "serialize_buffers m keyCount prepared instructionCount =
     (let instructionBuffer0 =
            Buffer_copy (Buffer_from instructionCount) (Buffer_alloc PACKET_DATA_SIZE) 0
      in case encode_instructions prepared instructionBuffer0 (length instructionCount) of
           Inl e \<Rightarrow> Inl e
         | Inr (buf, instructionBufferLength) \<Rightarrow>
             let instructionBuffer = take instructionBufferLength buf
             in case bs58_decode (msg_recentBlockhash m) of
                  None \<Rightarrow> Inl NonBase58Character
                | Some blockhash \<Rightarrow>
                    (case encode_blobs
                            ([(1, Buffer_from [numRequiredSignatures (header m)]),
                              (1, Buffer_from [numReadonlySignedAccounts (header m)]),
                              (1, Buffer_from [numReadonlyUnsignedAccounts (header m)]),
                              (length keyCount, Buffer_from keyCount)] @
                             map (\<lambda>k. (PUBKEY_LENGTH, toBuffer k)) (accountKeys m) @
                             [(PUBKEY_LENGTH, blockhash)])
                            (Buffer_alloc 2048) 0 of
                       Inl e \<Rightarrow> Inl e
                     | Inr (signData, len) \<Rightarrow>
                         Inr (take (len + length instructionBuffer)
                                (Buffer_copy instructionBuffer signData len))))"

text \<open>\<open>serialize\<close>: \<open>None\<close> when a call of \<open>encodeLength\<close> does not return.\<close>

definition Message_serialize :: "Message \<Rightarrow> (error + byte list) option" where
  "Message_serialize m =
     (let numKeys = length (accountKeys m)
      in case encodeLength numKeys of
           None \<Rightarrow> None
         | Some keyCount \<Rightarrow>
             (case map_calls prepare_instruction (msg_instructions m) of
                None \<Rightarrow> None
              | Some (Inl e) \<Rightarrow> Some (Inl e)
              | Some (Inr prepared) \<Rightarrow>
                  (case encodeLength (length prepared) of
                     None \<Rightarrow> None
                   | Some instructionCount \<Rightarrow>
                       Some (serialize_buffers m keyCount prepared instructionCount))))"

text \<open>
  \<open>Message.from\<close>. The array is the bytes of the buffer as numbers. A header count or a
  program id index shifted off the empty array is \<open>undefined\<close> in the source; a
  \<open>Message\<close> of this model has numbers there, so the model ends with \<open>ReadPastEnd\<close>.
\<close>

fun read_accountKeys :: "nat \<Rightarrow> nat list \<Rightarrow> string list \<times> nat list" where
  "read_accountKeys 0 byteArray = ([], byteArray)"
| "read_accountKeys (Suc n) byteArray =
     (let account = slice byteArray 0 (int PUBKEY_LENGTH);
          (ks, rest) = read_accountKeys n (slice_from byteArray (int PUBKEY_LENGTH))
      in (bs58_encode (Buffer_from account) # ks, rest))"

fun read_instructions :: "nat \<Rightarrow> nat list \<Rightarrow> error + CompiledInstruction list \<times> nat list" where
  "read_instructions 0 byteArray = Inr ([], byteArray)"
| "read_instructions (Suc n) [] = Inl ReadPastEnd"
| "read_instructions (Suc n) (pidx # byteArray) =
     (let (accountCount, b2) = decodeLength byteArray;
          accs = slice b2 0 accountCount;
          b3 = slice_from b2 accountCount;
          (dataLen, b4) = decodeLength b3;
          dataSlice = slice b4 0 dataLen;
          b5 = slice_from b4 dataLen
      in case read_instructions n b5 of
           Inl e \<Rightarrow> Inl e
         | Inr (instrs, rest) \<Rightarrow>
             Inr (\<lparr>programIdIndex = pidx, accounts = accs,
                   data58 = bs58_encode (Buffer_from dataSlice)\<rparr> # instrs, rest))"

definition Message_from :: "byte list \<Rightarrow> error + Message" where
  "Message_from buffer =
     (case map unat buffer of
        nrs # nrsa # nrua # byteArray \<Rightarrow>
          (let (accountCount, b1) = decodeLength byteArray;
               (keyStrings, b2) = read_accountKeys (nat accountCount) b1;
               blockhash = slice b2 0 (int PUBKEY_LENGTH);
               b3 = slice_from b2 (int PUBKEY_LENGTH);
               (instructionCount, b4) = decodeLength b3
           in case read_instructions (nat instructionCount) b4 of
                Inl e \<Rightarrow> Inl e
              | Inr (instrs, rest) \<Rightarrow>
                  Message_new
                    \<lparr>numRequiredSignatures = nrs, numReadonlySignedAccounts = nrsa,
                     numReadonlyUnsignedAccounts = nrua\<rparr>
                    keyStrings (bs58_encode (Buffer_from blockhash)) instrs)
      | _ \<Rightarrow> Inl ReadPastEnd)"


section \<open>Transaction: signing\<close>

text \<open>
  A signer is a public key and a secret key. \<open>tweetnacl\<close> is an imported library: its
  \<open>sign.detached\<close> (which throws on a secret key that is not 64 bytes: \<open>None\<close>) and
  \<open>sign.detached.verify\<close> are parameters of the model.
\<close>

record Signer =
  signer_publicKey :: PublicKey
  secretKey :: "byte list"

record nacl =
  sign_detached :: "byte list \<Rightarrow> byte list \<Rightarrow> byte list option"
  sign_detached_verify :: "byte list \<Rightarrow> byte list \<Rightarrow> byte list \<Rightarrow> bool"

text \<open>
  \<open>signedKeys[index].equals(pair.publicKey)\<close> for every pair, as \<open>every\<close> runs it: it
  stops at the first pair that differs; reading a pair without a public key throws.
\<close>

fun every_equals :: "PublicKey list \<Rightarrow> SignaturePubkeyPair list \<Rightarrow> error + bool" where
  "every_equals (k # ks) (pair # pairs) =
     (case publicKey pair of
        None \<Rightarrow> Inl UndefinedPublicKey
      | Some k' \<Rightarrow> if k = k' then every_equals ks pairs else Inr False)"
| "every_equals ks pairs = Inr True"

text \<open>\<open>_compile\<close>: the message, and the signature slots made to match its signer keys.\<close>

definition compile :: "Transaction \<Rightarrow> (error + Message) \<times> Transaction" where
  "compile tx =
     (case compileMessage tx of
        (Inl e, tx') \<Rightarrow> (Inl e, tx')
      | (Inr message, tx') \<Rightarrow>
          let signedKeys = take (numRequiredSignatures (header message)) (accountKeys message);
              fresh = tx'\<lparr>signatures :=
                         map (\<lambda>k. \<lparr>signature = None, publicKey = Some k\<rparr>) signedKeys\<rparr>
          in if length (signatures tx') = length signedKeys
             then (case every_equals signedKeys (signatures tx') of
                     Inl e \<Rightarrow> (Inl e, tx')
                   | Inr valid \<Rightarrow> if valid then (Inr message, tx') else (Inr message, fresh))
             else (Inr message, fresh))"

text \<open>
  \<open>findIndex(sigpair => pubkey.equals(sigpair.publicKey))\<close>: the index of the slot of
  \<open>pubkey\<close>, \<open>None\<close> for -1; a slot without a public key that is met on the way throws.
\<close>

fun find_slot :: "PublicKey \<Rightarrow> SignaturePubkeyPair list \<Rightarrow> error + nat option" where
  "find_slot k [] = Inr None"
| "find_slot k (pair # pairs) =
     (case publicKey pair of
        None \<Rightarrow> Inl UndefinedPublicKey
      | Some k' \<Rightarrow>
          if k = k' then Inr (Some 0)
          else (case find_slot k pairs of
                  Inl e \<Rightarrow> Inl e
                | Inr r \<Rightarrow> Inr (map_option Suc r)))"

definition addSignature' :: "PublicKey \<Rightarrow> byte list \<Rightarrow> Transaction \<Rightarrow> (error + unit) \<times> Transaction" where
  "addSignature' k sig tx =
     (if length sig \<noteq> 64 then (Inl AssertionFailed, tx)
      else case find_slot k (signatures tx) of
             Inl e \<Rightarrow> (Inl e, tx)
           | Inr None \<Rightarrow> (Inl (UnknownSigner k), tx)
           | Inr (Some i) \<Rightarrow>
               (Inr (),
                tx\<lparr>signatures := (signatures tx)[i := (signatures tx ! i)\<lparr>signature := Some sig\<rparr>]\<rparr>))"

text \<open>The loop of \<open>_partialSign\<close> over the signers, on the bytes of the message.\<close>

fun sign_each :: "nacl \<Rightarrow> byte list \<Rightarrow> Signer list \<Rightarrow> Transaction \<Rightarrow> (error + unit) \<times> Transaction" where
  "sign_each lib signData [] tx = (Inr (), tx)"
| "sign_each lib signData (signer # signers) tx =
     (case sign_detached lib signData (secretKey signer) of
        None \<Rightarrow> (Inl BadSecretKey, tx)
      | Some sig \<Rightarrow>
          (case addSignature' (signer_publicKey signer) sig tx of
             (Inl e, tx') \<Rightarrow> (Inl e, tx')
           | (Inr u, tx') \<Rightarrow> sign_each lib signData signers tx'))"

definition partialSign' ::
  "nacl \<Rightarrow> Message \<Rightarrow> Signer list \<Rightarrow> Transaction \<Rightarrow> ((error + unit) \<times> Transaction) option"
where
  "partialSign' lib message signers tx =
     (case Message_serialize message of
        None \<Rightarrow> None
      | Some (Inl e) \<Rightarrow> Some (Inl e, tx)
      | Some (Inr signData) \<Rightarrow> Some (sign_each lib signData signers tx))"

text \<open>\<open>_verifySignatures(signData, requireAllSignatures)\<close>\<close>

fun verifySignatures' :: "nacl \<Rightarrow> byte list \<Rightarrow> bool \<Rightarrow> SignaturePubkeyPair list \<Rightarrow> error + bool" where
  "verifySignatures' lib signData requireAllSignatures [] = Inr True"
| "verifySignatures' lib signData requireAllSignatures (pair # pairs) =
     (case signature pair of
        None \<Rightarrow>
          if requireAllSignatures then Inr False
          else verifySignatures' lib signData requireAllSignatures pairs
      | Some sig \<Rightarrow>
          (case publicKey pair of
             None \<Rightarrow> Inl UndefinedPublicKey
           | Some k \<Rightarrow>
               if \<not> sign_detached_verify lib signData sig (toBuffer k) then Inr False
               else verifySignatures' lib signData requireAllSignatures pairs))"

text \<open>The signers without the later duplicates of a public key.\<close>

fun dedupe_signers :: "string list \<Rightarrow> Signer list \<Rightarrow> Signer list" where
  "dedupe_signers seen [] = []"
| "dedupe_signers seen (signer # signers) =
     (if toBase58 (signer_publicKey signer) \<in> set seen then dedupe_signers seen signers
      else signer # dedupe_signers (toBase58 (signer_publicKey signer) # seen) signers)"

text \<open>
  \<open>sign(...signers)\<close>: the last statement calls \<open>_verifySignatures\<close> and drops the boolean
  it returns; only an exception of the call ends \<open>sign\<close> with an error. \<open>None\<close> when
  \<open>serialize\<close> does not return.
\<close>

definition sign :: "nacl \<Rightarrow> Signer list \<Rightarrow> Transaction \<Rightarrow> ((error + unit) \<times> Transaction) option" where
  "sign lib signers tx =
     (if signers = [] then Some (Inl NoSigners, tx)
      else
        let uniqueSigners = dedupe_signers [] signers;
            tx1 = tx\<lparr>signatures :=
                      map (\<lambda>signer. \<lparr>signature = None, publicKey = Some (signer_publicKey signer)\<rparr>)
                        uniqueSigners\<rparr>
        in case compile tx1 of
             (Inl e, tx2) \<Rightarrow> Some (Inl e, tx2)
           | (Inr message, tx2) \<Rightarrow>
               (case partialSign' lib message uniqueSigners tx2 of
                  None \<Rightarrow> None
                | Some (Inl e, tx3) \<Rightarrow> Some (Inl e, tx3)
                | Some (Inr u, tx3) \<Rightarrow>
                    (case Message_serialize message of
                       None \<Rightarrow> None
                     | Some (Inl e) \<Rightarrow> Some (Inl e, tx3)
                     | Some (Inr signData) \<Rightarrow>
                         (case verifySignatures' lib signData True (signatures tx3) of
                            Inl e \<Rightarrow> Some (Inl e, tx3)
                          | Inr verified \<Rightarrow> Some (Inr (), tx3)))))"

text \<open>
  \<open>serialize(config)\<close> up to its check: the sibling of \<open>sign\<close> that does throw
  \<open>Signature verification failed\<close>.
\<close>

datatype serialize_error = SignatureVerificationFailed | Other error

definition serialize_check ::
  "nacl \<Rightarrow> bool \<Rightarrow> bool \<Rightarrow> Transaction \<Rightarrow> ((serialize_error + byte list) \<times> Transaction) option"
where
  "serialize_check lib requireAllSignatures verifySigs tx =
     (case compile tx of
        (Inl e, tx') \<Rightarrow> Some (Inl (Other e), tx')
      | (Inr message, tx') \<Rightarrow>
          (case Message_serialize message of
             None \<Rightarrow> None
           | Some (Inl e) \<Rightarrow> Some (Inl (Other e), tx')
           | Some (Inr signData) \<Rightarrow>
               if verifySigs
               then (case verifySignatures' lib signData requireAllSignatures (signatures tx') of
                       Inl e \<Rightarrow> Some (Inl (Other e), tx')
                     | Inr verified \<Rightarrow>
                         if \<not> verified then Some (Inl SignatureVerificationFailed, tx')
                         else Some (Inr signData, tx'))
               else Some (Inr signData, tx')))"


section \<open>Program addresses: is_on_curve, createProgramAddress, findProgramAddress\<close>

text \<open>
  \<open>is_on_curve\<close> is written with the field arithmetic of \<open>tweetnacl\<close>'s \<open>lowlevel\<close>
  object, an imported library: the functions it calls are the fields of a record, a
  parameter of the model. A field element (\<open>gf\<close>) is a value of the type \<open>'gf\<close>; where
  the source lets a function write its result into its first argument, the function
  here returns it. \<open>gf_of\<close> is \<open>gf(init)\<close> on a list of 16-bit limbs.
\<close>

record 'gf lowlevel =
  gf_of :: "nat list \<Rightarrow> 'gf"
  D :: 'gf
  unpack25519 :: "byte list \<Rightarrow> 'gf"
  pack25519 :: "'gf \<Rightarrow> byte list"
  A :: "'gf \<Rightarrow> 'gf \<Rightarrow> 'gf"
  Z :: "'gf \<Rightarrow> 'gf \<Rightarrow> 'gf"
  M :: "'gf \<Rightarrow> 'gf \<Rightarrow> 'gf"
  S :: "'gf \<Rightarrow> 'gf"
  pow2523 :: "'gf \<Rightarrow> 'gf"
  crypto_verify_32 :: "byte list \<Rightarrow> byte list \<Rightarrow> int"

definition gf1 :: "'gf lowlevel \<Rightarrow> 'gf" where
  "gf1 ll = gf_of ll [1]"

definition gf_I :: "'gf lowlevel \<Rightarrow> 'gf" where
  "gf_I ll = gf_of ll [0xa0b0, 0x4a0e, 0x1b27, 0xc4ee, 0xe478, 0xad2f, 0x1806, 0x2f43,
                      0xd7a7, 0x3dfb, 0x0099, 0x2b4d, 0xdf0b, 0x4fc1, 0x2480, 0x2b83]"

definition neq25519 :: "'gf lowlevel \<Rightarrow> 'gf \<Rightarrow> 'gf \<Rightarrow> int" where
  "neq25519 ll a b = crypto_verify_32 ll (pack25519 ll a) (pack25519 ll b)"

definition is_on_curve :: "'gf lowlevel \<Rightarrow> byte list \<Rightarrow> nat" where
  "is_on_curve ll p =
     (let r2 = gf1 ll;
          r1 = unpack25519 ll p;
          num = S ll r1;
          den = M ll num (D ll);
          num = Z ll num r2;
          den = A ll r2 den;
          den2 = S ll den;
          den4 = S ll den2;
          den6 = M ll den4 den2;
          t = M ll den6 num;
          t = M ll t den;
          t = pow2523 ll t;
          t = M ll t num;
          t = M ll t den;
          t = M ll t den;
          r0 = M ll t den;
          chk = S ll r0;
          chk = M ll chk den;
          r0 = (if neq25519 ll chk num \<noteq> 0 then M ll r0 (gf_I ll) else r0);
          chk = S ll r0;
          chk = M ll chk den
      in if neq25519 ll chk num \<noteq> 0 then 0 else 1)"

definition isOnCurve :: "'gf lowlevel \<Rightarrow> byte list \<Rightarrow> bool" where
  "isOnCurve ll bytes = (is_on_curve ll bytes = 1)"

text \<open>
  \<open>sha256\<close> (the package \<open>crypto-hash\<close>) is a parameter: it yields the digest, a
  256-bit number, which the source carries as a hex string into \<open>new BN(hash, 16)\<close>.
  \<open>toArray(undefined, 32)\<close> writes the number big-endian into 32 bytes.
\<close>

definition MAX_SEED_LENGTH :: nat where
  "MAX_SEED_LENGTH = 32"

definition BN_toArray :: "nat \<Rightarrow> nat \<Rightarrow> byte list" where
  "BN_toArray n len =
     replicate (len - length (digits_be 256 n)) 0 @ map of_nat (digits_be 256 n)"

text \<open>The loop over the seeds: a seed that is too long throws, the others are joined.\<close>

fun concat_seeds :: "byte list \<Rightarrow> byte list list \<Rightarrow> error + byte list" where
  "concat_seeds buffer [] = Inr buffer"
| "concat_seeds buffer (seed # seeds) =
     (if length seed > MAX_SEED_LENGTH then Inl MaxSeedLengthExceeded
      else concat_seeds (buffer @ seed) seeds)"

definition ProgramDerivedAddress :: "byte list" where
  "ProgramDerivedAddress = map (\<lambda>c. of_nat (of_char c)) ''ProgramDerivedAddress''"

definition createProgramAddress ::
  "'gf lowlevel \<Rightarrow> (byte list \<Rightarrow> 256 word) \<Rightarrow> byte list list \<Rightarrow> PublicKey \<Rightarrow> error + PublicKey"
where
  "createProgramAddress ll sha256 seeds program =
     (case concat_seeds [] seeds of
        Inl e \<Rightarrow> Inl e
      | Inr buffer \<Rightarrow>
          let hash = sha256 (buffer @ toBuffer program @ ProgramDerivedAddress);
              publicKeyBytes = BN_toArray (unat hash) 32
          in if is_on_curve ll publicKeyBytes \<noteq> 0 then Inl InvalidSeeds
             else PublicKey_of_bytes publicKeyBytes)"

text \<open>
  The loop of \<open>findProgramAddress\<close>, from the nonce it is about to try. A \<open>TypeError\<close>
  (the seed that is too long) is thrown on; any other error moves to the next nonce.
\<close>

fun find_nonce ::
  "'gf lowlevel \<Rightarrow> (byte list \<Rightarrow> 256 word) \<Rightarrow> byte list list \<Rightarrow> PublicKey \<Rightarrow> nat \<Rightarrow> error + PublicKey \<times> nat"
where
  "find_nonce ll sha256 seeds program 0 = Inl NonceExhausted"
| "find_nonce ll sha256 seeds program (Suc n) =
     (case createProgramAddress ll sha256 (seeds @ [[of_nat (Suc n)]]) program of
        Inl MaxSeedLengthExceeded \<Rightarrow> Inl MaxSeedLengthExceeded
      | Inl e \<Rightarrow> find_nonce ll sha256 seeds program n
      | Inr address \<Rightarrow> Inr (address, Suc n))"

definition findProgramAddress ::
  "'gf lowlevel \<Rightarrow> (byte list \<Rightarrow> 256 word) \<Rightarrow> byte list list \<Rightarrow> PublicKey \<Rightarrow> error + PublicKey \<times> nat"
where
  "findProgramAddress ll sha256 seeds program = find_nonce ll sha256 seeds program 255"

text \<open>
  A stand-in for the library to run the derivation on: the arithmetic of \<open>tweetnacl\<close>
  carried out on residues modulo a number \<open>q\<close> (the library works modulo
  \<open>2^255 - 19\<close>), with the constant \<open>d\<close> for \<open>D\<close>. \<open>pow2523\<close> is the loop of the
  library: 251 squarings, each but the one before the last followed by a
  multiplication.
\<close>

fun limbs_value :: "nat list \<Rightarrow> nat" where
  "limbs_value [] = 0"
| "limbs_value (l # ls) = l + 2 ^ 16 * limbs_value ls"

fun bytes_le :: "byte list \<Rightarrow> nat" where
  "bytes_le [] = 0"
| "bytes_le (b # bs) = unat b + 256 * bytes_le bs"

fun to_bytes_le :: "nat \<Rightarrow> nat \<Rightarrow> byte list" where
  "to_bytes_le 0 n = []"
| "to_bytes_le (Suc k) n = of_nat (n mod 256) # to_bytes_le k (n div 256)"

fun pow2523_loop :: "nat \<Rightarrow> nat \<Rightarrow> nat \<Rightarrow> nat \<Rightarrow> nat" where
  "pow2523_loop q 0 c i = c"
| "pow2523_loop q (Suc a) c i =
     pow2523_loop q a (if a \<noteq> 1 then ((c * c) mod q * i) mod q else (c * c) mod q) i"

definition field_lowlevel :: "nat \<Rightarrow> nat \<Rightarrow> nat lowlevel" where
  "field_lowlevel q d =
     \<lparr>gf_of = (\<lambda>limbs. limbs_value limbs mod q),
      D = d,
      unpack25519 = (\<lambda>n. (bytes_le n mod 2 ^ 255) mod q),
      pack25519 = (\<lambda>a. to_bytes_le 32 (a mod q)),
      A = (\<lambda>a b. (a + b) mod q),
      Z = (\<lambda>a b. (a + q - b mod q) mod q),
      M = (\<lambda>a b. (a * b) mod q),
      S = (\<lambda>a. (a * a) mod q),
      pow2523 = (\<lambda>i. pow2523_loop q 251 i i),
      crypto_verify_32 = (\<lambda>x y. if x = y then 0 else - 1)\<rparr>"

text \<open>
  The stand-ins: the arithmetic in the integers modulo 13, and a digest that is the
  first byte of its input.
\<close>

definition small_lowlevel :: "nat lowlevel" where
  "small_lowlevel = field_lowlevel 13 2"

definition first_byte_digest :: "byte list \<Rightarrow> 256 word" where
  "first_byte_digest bs = (case bs of [] \<Rightarrow> 0 | b # _ \<Rightarrow> of_nat (unat b))"


section \<open>Concrete transactions\<close>

text \<open>The blockhash whose 32 bytes are zero.\<close>

definition zero_blockhash :: string where
  "zero_blockhash = ''11111111111111111111111111111111''"

text \<open>
  One instruction of program 4 that names key 3 as a read-only signer, and key 2 twice:
  as a read-only signer and as a writable account that does not sign. Key 1 pays.
\<close>

definition ordering_tx :: Transaction where
  "ordering_tx =
     \<lparr>signatures = [], feePayer = Some 1,
      instructions =
        [\<lparr>identity = 0,
          keys = [\<lparr>pubkey = 3, isSigner = True, isWritable = False\<rparr>,
                   \<lparr>pubkey = 2, isSigner = True, isWritable = False\<rparr>,
                   \<lparr>pubkey = 2, isSigner = False, isWritable = True\<rparr>],
          programId = Some 4, data = []\<rparr>],
      recentBlockhash = Some zero_blockhash, nonceInfo = None\<rparr>"

definition ordering_message :: Message where
  "ordering_message =
     \<lparr>header = \<lparr>numRequiredSignatures = 3, numReadonlySignedAccounts = 1,
                 numReadonlyUnsignedAccounts = 1\<rparr>,
      accountKeys = [1, 3, 2, 4], msg_recentBlockhash = zero_blockhash,
      msg_instructions = [\<lparr>programIdIndex = 3, accounts = [1, 2, 2], data58 = []\<rparr>]\<rparr>"

text \<open>
  A transaction of one instruction of program 3 that needs the signature of key 2, with
  no fee payer set, and a library stand-in whose signatures are 64 bytes and whose
  verifier accepts everything.
\<close>

definition two_signer_tx :: Transaction where
  "two_signer_tx =
     \<lparr>signatures = [], feePayer = None,
      instructions =
        [\<lparr>identity = 0,
          keys = [\<lparr>pubkey = 2, isSigner = True, isWritable = True\<rparr>],
          programId = Some 3, data = []\<rparr>],
      recentBlockhash = Some zero_blockhash, nonceInfo = None\<rparr>"

definition signer_1 :: Signer where
  "signer_1 = \<lparr>signer_publicKey = 1, secretKey = replicate 64 1\<rparr>"

definition accepting_nacl :: nacl where
  "accepting_nacl =
     \<lparr>sign_detached = (\<lambda>msg sk. Some (replicate 64 1)),
      sign_detached_verify = (\<lambda>msg sig pk. True)\<rparr>"


chapter \<open>Properties\<close>

section \<open>Properties of the request channel\<close>

lemma last_attempt_ge: "n \<le> last_attempt fetch d budget n"
proof (induction budget arbitrary: n)
  case 0 show ?case by simp
next
  case (Suc budget)
  from Suc[of "Suc n"] show ?case by auto
qed

lemma last_attempt_le: "last_attempt fetch d budget n \<le> n + budget"
proof (induction budget arbitrary: n)
  case 0 show ?case by simp
next
  case (Suc budget)
  from Suc[of "Suc n"] show ?case by auto
qed

lemma retry_loop_step:
  assumes "fetch n = Resolved res" "status res = 429" "d \<noteq> Some True"
  shows "retry_loop fetch d (int (Suc (Suc budget))) w n slept =
         retry_loop fetch d (int (Suc budget)) (w * 2) (Suc n) (w # slept)"
proof -
  have e: "int (Suc (Suc budget)) - 1 = int (Suc budget)" "int (Suc budget) \<noteq> 0" by simp_all
  show ?thesis
    by (subst retry_loop.simps) (simp only: assms e fetch_result.case if_False if_True simp_thms)
qed

lemma retry_loop_stop:
  assumes "\<not> (rate_limited (fetch n) \<and> d \<noteq> Some True) \<or> budget = 0"
  shows "retry_loop fetch d (int (Suc budget)) w n slept =
         Some \<lparr>requests = Suc n, sleeps = rev slept, outcome = settle (fetch n)\<rparr>"
  using assms
  by (subst retry_loop.simps)
     (auto simp: settle_def rate_limited_def split: fetch_result.splits)

lemma upt_shift: "Suc n \<le> m \<Longrightarrow> map f [0..<m - n] = f 0 # map (\<lambda>i. f (Suc i)) [0..<m - Suc n]"
proof -
  assume "Suc n \<le> m"
  then have "m - n = Suc (m - Suc n)" by simp
  then show ?thesis by (simp add: upt_conv_Cons map_Suc_upt[symmetric] o_def del: upt_Suc)
qed

lemma retry_loop_run:
  "retry_loop fetch d (int (Suc budget)) w n slept =
     Some \<lparr>requests = Suc (last_attempt fetch d budget n),
           sleeps = rev slept @ map (\<lambda>i. w * 2 ^ i) [0..<last_attempt fetch d budget n - n],
           outcome = settle (fetch (last_attempt fetch d budget n))\<rparr>"
proof (induction budget arbitrary: w n slept)
  case 0
  show ?case using retry_loop_stop[of fetch n d 0 w slept] by simp
next
  case (Suc budget)
  show ?case
  proof (cases "rate_limited (fetch n) \<and> d \<noteq> Some True")
    case False
    then have la: "last_attempt fetch d (Suc budget) n = n"
      by (simp only: last_attempt.simps if_False)
    show ?thesis
      unfolding la using False by (simp only: retry_loop_stop diff_self_eq_0 upt_0 list.map append_Nil2 simp_thms)
  next
    case True
    then obtain res where res: "fetch n = Resolved res" "status res = 429" "d \<noteq> Some True"
      by (auto simp: rate_limited_def split: fetch_result.splits)
    have m: "map (\<lambda>i. w * 2 ^ i) [0..<last_attempt fetch d budget (Suc n) - n] =
             w # map (\<lambda>i. w * 2 * 2 ^ i) [0..<last_attempt fetch d budget (Suc n) - Suc n]"
      using upt_shift[OF last_attempt_ge[of "Suc n" fetch d budget], of "\<lambda>i. w * 2 ^ i"] by (simp add: mult.assoc)
    show ?thesis
      unfolding retry_loop_step[of fetch n res d, OF res] Suc.IH
      using True by (simp add: m)
  qed
qed

lemma last_attempt_before:
  "n \<le> i \<Longrightarrow> i < last_attempt fetch d budget n \<Longrightarrow> rate_limited (fetch i) \<and> d \<noteq> Some True"
proof (induction budget arbitrary: n)
  case 0 then show ?case by simp
next
  case (Suc budget)
  show ?case
  proof (cases "rate_limited (fetch n) \<and> d \<noteq> Some True")
    case False with Suc.prems show ?thesis by simp
  next
    case True
    show ?thesis
    proof (cases "i = n")
      case True with \<open>rate_limited (fetch n) \<and> d \<noteq> Some True\<close> show ?thesis by simp
    next
      case False
      with Suc.prems True have "Suc n \<le> i" "i < last_attempt fetch d budget (Suc n)" by auto
      then show ?thesis by (rule Suc.IH)
    qed
  qed
qed

lemma last_attempt_stop:
  "last_attempt fetch d budget n < n + budget \<Longrightarrow>
     \<not> (rate_limited (fetch (last_attempt fetch d budget n)) \<and> d \<noteq> Some True)"
proof (induction budget arbitrary: n)
  case 0 then show ?case by simp
next
  case (Suc budget)
  show ?case
  proof (cases "rate_limited (fetch n) \<and> d \<noteq> Some True")
    case False then show ?thesis by simp
  next
    case True
    with Suc.prems have "last_attempt fetch d budget (Suc n) < Suc n + budget" by simp
    from Suc.IH[OF this] True show ?thesis by simp
  qed
qed

text \<open>
  Claim C9, as amended. On a rate-limit response (status 429) the request channel
  sends the request again, at most 5 requests in all: request number \<open>k\<close> (counted
  from 0, \<open>k \<le> 4\<close>) is the last one, every earlier request was answered with 429, and
  before retry \<open>i + 1\<close> the handler slept \<open>500 * 2 ^ i\<close> milliseconds
  (500, 1000, 2000, 4000). When the caller disabled the retry, or when the first answer
  is not a 429, the first answer is handed to the callback with no retry and no sleep;
  a 429 reaches the callback only when the retry is disabled or it answers the fifth
  request. The run always ends.
\<close>

theorem rpc_request_retry_policy:
  "\<exists>k\<le>4. rpc_request fetch d =
            Some \<lparr>requests = Suc k, sleeps = backoff k, outcome = settle (fetch k)\<rparr>
         \<and> (\<forall>i<k. rate_limited (fetch i))
         \<and> (d = Some True \<longrightarrow> k = 0)
         \<and> (\<not> rate_limited (fetch 0) \<longrightarrow> k = 0)
         \<and> (rate_limited (fetch k) \<longrightarrow> d = Some True \<or> k = 4)"
proof -
  define k where "k = last_attempt fetch d 4 0"
  have le: "k \<le> 4" using last_attempt_le[of fetch d 4 0] by (simp add: k_def)
  have run: "rpc_request fetch d =
      Some \<lparr>requests = Suc k, sleeps = backoff k, outcome = settle (fetch k)\<rparr>"
    using retry_loop_run[of fetch d 4 500 0 "[]"]
    by (simp add: rpc_request_def backoff_def k_def)
  have before: "\<forall>i<k. rate_limited (fetch i) \<and> d \<noteq> Some True"
    using last_attempt_before[of 0 _ fetch d 4] by (simp add: k_def)
  have stop: "k < 4 \<Longrightarrow> \<not> (rate_limited (fetch k) \<and> d \<noteq> Some True)"
    using last_attempt_stop[of fetch d 4 0] by (simp add: k_def)
  have a: "d = Some True \<longrightarrow> k = 0" using before by (cases k) auto
  have b: "\<not> rate_limited (fetch 0) \<longrightarrow> k = 0" using before by (cases k) auto
  have c: "rate_limited (fetch k) \<longrightarrow> d = Some True \<or> k = 4" using stop le by auto
  from le run before a b c show ?thesis by blast
qed

text \<open>
  The amended policy at the remote node that answers every request with 429: five
  requests, four sleeps, and the fifth 429 handed to the callback.
\<close>

theorem rpc_request_retry_policy_witness:
  "rpc_request always_429 None =
     Some \<lparr>requests = 5, sleeps = [500, 1000, 2000, 4000],
           outcome = HttpError 429 ''Too Many Requests'' ''slow down''\<rparr>"
proof -
  obtain k where k: "k \<le> 4"
    "rpc_request always_429 None =
       Some \<lparr>requests = Suc k, sleeps = backoff k, outcome = settle (always_429 k)\<rparr>"
    "rate_limited (always_429 k) \<longrightarrow> None = Some True \<or> k = 4"
    using rpc_request_retry_policy[of always_429 None] by blast
  have "rate_limited (always_429 k)" by (simp add: rate_limited_def always_429_def)
  with k(3) have "k = 4" by simp
  moreover have "backoff 4 = [500, 1000, 2000, 4000]" by code_simp
  ultimately show ?thesis using k(2)
    by (simp add: settle_def always_429_def deliver_def)
qed

text \<open>
  Claim C9 as stated fails: a node that answers 429 five times and 200 from the sixth
  request on would be reached by a fifth retry, but the handler gives up after four
  retries (five requests) and reports the 429.
\<close>

theorem rpc_request_fifth_retry_counterexample:
  "rpc_request five_429_then_200 None =
     Some \<lparr>requests = 5, sleeps = [500, 1000, 2000, 4000],
           outcome = HttpError 429 ''Too Many Requests'' ''slow down''\<rparr>
   \<and> settle (five_429_then_200 5) = Result ''result''"
proof -
  have la: "last_attempt five_429_then_200 None 4 0 = 4" by code_simp
  have s: "map (\<lambda>i. 500 * 2 ^ i) [0..<4] = [500, 1000, 2000, 4000::nat]" by code_simp
  show ?thesis
    using retry_loop_run[of five_429_then_200 None 4 500 0 "[]"]
    by (simp add: rpc_request_def la s settle_def deliver_def five_429_then_200_def always_429_def)
qed

section \<open>Properties of the subscriptions\<close>

lemma reset_family_ids: "map fst (reset_family subs) = map fst subs"
  by (induction subs) (auto simp: reset_family_def)

lemma reset_family_tokens:
  "list_all (\<lambda>(i, s). subscriptionId s = Null) (reset_family subs)"
  by (induction subs) (auto simp: reset_family_def)

lemma resetSubscriptions_logs: "logsSubscriptions (resetSubscriptions c) = logsSubscriptions c"
  by (simp add: resetSubscriptions_def)

text \<open>
  Claim C7 at a client with an acknowledged logs subscription. The socket closes with
  code 1006: the account subscription goes back to \<open>null\<close>, the logs subscription keeps
  the token 42 of the dead socket, and when the socket opens again the resync sends
  \<open>accountSubscribe\<close> only: the logs subscription is never subscribed again.
\<close>

theorem wsOnClose_keeps_logs_token:
  "logsSubscriptions (fst (wsOnClose 1006 logs_client)) =
     [(1, \<lparr>rpcArgs = [''all''], subscriptionId = Number 42\<rparr>)]
   \<and> accountChangeSubscriptions (fst (wsOnClose 1006 logs_client)) =
     [(1, \<lparr>rpcArgs = [''account'', ''base64''], subscriptionId = Null\<rparr>)]
   \<and> snd (wsOnOpen (fst (wsOnClose 1006 logs_client))) =
     [Call ''accountSubscribe'' [''account'', ''base64'']]"
  by (simp add: wsOnClose_def wsOnOpen_def resetSubscriptions_def reset_family_def
        updateSubscriptions_def subscribe_def logs_client_def)

section \<open>Properties of the base-58 codec and of PublicKey\<close>

lemma replicate_numeral: "replicate (numeral k) x = x # replicate (pred_numeral k) x"
  by (simp add: numeral_eq_Suc)

lemma from_digits_append: "from_digits b a (xs @ ys) = from_digits b (from_digits b a xs) ys"
  by (induction xs arbitrary: a) auto

lemma of_digits_snoc: "of_digits b (ds @ [d]) = of_digits b ds * b + d"
  by (simp add: of_digits_def from_digits_append)

lemma of_digits_digits_be: "2 \<le> b \<Longrightarrow> of_digits b (digits_be b n) = n"
proof (induction b n rule: digits_be.induct)
  case (1 b n)
  show ?case
  proof (cases "n = 0")
    case True then show ?thesis by (simp add: of_digits_def)
  next
    case False
    with 1 have "of_digits b (digits_be b (n div b)) = n div b" by simp
    with False 1(2) show ?thesis by (simp add: digits_be_rec of_digits_snoc)
  qed
qed

lemma digits_be_lt: "2 \<le> b \<Longrightarrow> d \<in> set (digits_be b n) \<Longrightarrow> d < b"
proof (induction b n rule: digits_be.induct)
  case (1 b n)
  show ?case
  proof (cases "n = 0")
    case True with 1(3) show ?thesis by simp
  next
    case False
    with 1 show ?thesis by (auto simp: digits_be_rec)
  qed
qed

lemma digits_be_hd: "2 \<le> b \<Longrightarrow> 0 < n \<Longrightarrow> digits_be b n \<noteq> [] \<and> hd (digits_be b n) \<noteq> 0"
proof (induction b n rule: digits_be.induct)
  case (1 b n)
  show ?case
  proof (cases "n div b = 0")
    case True
    with 1(2) have "n < b" by (simp add: div_eq_0_iff)
    with True 1(2,3) show ?thesis by (simp add: digits_be_rec)
  next
    case False
    with 1 have "digits_be b (n div b) \<noteq> [] \<and> hd (digits_be b (n div b)) \<noteq> 0" by simp
    with 1(2,3) show ?thesis by (simp add: digits_be_rec)
  qed
qed

lemma digits_be_snoc:
  assumes "2 \<le> b" "d < b" "0 < m * b + d"
  shows "digits_be b (m * b + d) = digits_be b m @ [d]"
  using assms by (simp add: digits_be_rec)

lemma digits_be_of_digits:
  "2 \<le> b \<Longrightarrow> \<forall>d \<in> set ds. d < b \<Longrightarrow> ds = [] \<or> hd ds \<noteq> 0 \<Longrightarrow> digits_be b (of_digits b ds) = ds"
proof (induction ds rule: rev_induct)
  case Nil
  then show ?case by (simp add: of_digits_def)
next
  case (snoc d ds)
  show ?case
  proof (cases "ds = []")
    case True
    with snoc.prems have "d \<noteq> 0" "d < b" by auto
    with True snoc.prems(1) show ?thesis
      using digits_be_snoc[of b d 0] by (simp add: of_digits_def)
  next
    case False
    with snoc.prems have h: "hd ds \<noteq> 0" "\<forall>d \<in> set ds. d < b" "d < b" by auto
    with snoc have ih: "digits_be b (of_digits b ds) = ds" by simp
    have "of_digits b ds \<noteq> 0"
    proof
      assume "of_digits b ds = 0"
      with ih have "ds = []" by simp
      with False show False by simp
    qed
    with snoc.prems(1) have "0 < of_digits b ds * b + d" by simp
    from digits_be_snoc[OF snoc.prems(1) h(3) this] ih show ?thesis
      by (simp add: of_digits_snoc)
  qed
qed

lemma index_of_nth: "distinct xs \<Longrightarrow> i < length xs \<Longrightarrow> index_of (xs ! i) xs = Some i"
proof (induction xs arbitrary: i)
  case Nil then show ?case by simp
next
  case (Cons x xs)
  then show ?case by (cases i) auto
qed

lemma ALPHABET_distinct: "distinct ALPHABET"
  by (simp add: ALPHABET_def)

lemma ALPHABET_length: "length ALPHABET = 58"
  by (simp add: ALPHABET_def)

lemma ALPHABET_index: "d < 58 \<Longrightarrow> index_of (ALPHABET ! d) ALPHABET = Some d"
  using index_of_nth[OF ALPHABET_distinct] by (simp add: ALPHABET_length)

lemma ALPHABET_one: "d < 58 \<Longrightarrow> (ALPHABET ! d = CHR ''1'') = (d = 0)"
proof -
  assume d: "d < 58"
  have "ALPHABET ! 0 = CHR ''1''" by (simp add: ALPHABET_def)
  then show ?thesis
    using d nth_eq_iff_index_eq[OF ALPHABET_distinct, of d 0] by (simp add: ALPHABET_length)
qed

lemma takeWhile_replicate_append:
  "ys = [] \<or> \<not> P (hd ys) \<Longrightarrow> P x \<Longrightarrow> takeWhile P (replicate n x @ ys) = replicate n x"
  by (induction n) (auto simp: takeWhile_eq_Nil_iff neq_Nil_conv)

lemma dropWhile_replicate_append:
  "ys = [] \<or> \<not> P (hd ys) \<Longrightarrow> P x \<Longrightarrow> dropWhile P (replicate n x @ ys) = ys"
  by (induction n) (auto simp: dropWhile_eq_self_iff neq_Nil_conv)

lemma takeWhile_zero_replicate: "takeWhile (\<lambda>b. b = 0) bs = replicate (length (takeWhile (\<lambda>b. b = 0) bs)) 0"
  by (induction bs) auto

lemma unat_byte_lt: "unat (b::byte) < 256"
  using unsigned_less[of b] by simp

lemma bs58_decode_encode: "bs58_decode (bs58_encode bs) = Some bs"
proof -
  define z where "z = length (takeWhile (\<lambda>b. b = 0) bs)"
  define rest where "rest = dropWhile (\<lambda>b. b = (0::byte)) bs"
  define ds where "ds = digits_be 58 (BN_of_bytes rest)"
  define cs where "cs = map (\<lambda>d. ALPHABET ! d) ds"
  have enc: "bs58_encode bs = replicate z (CHR ''1'') @ cs"
    by (simp add: bs58_encode_def z_def rest_def ds_def cs_def)
  have lt: "\<forall>d \<in> set ds. d < 58" using digits_be_lt[of 58] by (auto simp: ds_def)
  have valid: "\<not> list_ex (\<lambda>c. index_of c ALPHABET = None) (replicate z (CHR ''1'') @ cs)"
  proof -
    have "index_of (CHR ''1'') ALPHABET = Some 0" by (simp add: ALPHABET_def)
    moreover have "\<forall>c \<in> set cs. index_of c ALPHABET \<noteq> None"
      using lt ALPHABET_index by (auto simp: cs_def)
    ultimately show ?thesis by (auto simp: list_ex_iff)
  qed
  have hdcs: "cs = [] \<or> \<not> (hd cs = CHR ''1'')"
  proof (cases "BN_of_bytes rest = 0")
    case True then show ?thesis by (simp add: cs_def ds_def)
  next
    case False
    then have "ds \<noteq> [] \<and> hd ds \<noteq> 0" using digits_be_hd[of 58 "BN_of_bytes rest"] by (simp add: ds_def)
    moreover from this lt have "hd ds < 58" by (cases ds) auto
    ultimately show ?thesis using ALPHABET_one[of "hd ds"] by (simp add: cs_def hd_map)
  qed
  have idx: "map (\<lambda>c. the (index_of c ALPHABET)) cs = ds"
    using lt ALPHABET_index by (auto simp: cs_def map_idI)
  have num: "of_digits 58 ds = BN_of_bytes rest"
    by (simp add: ds_def of_digits_digits_be)
  have restd: "digits_be 256 (BN_of_bytes rest) = map unat rest"
  proof -
    have "\<forall>d \<in> set (map unat rest). d < 256"
      using unat_byte_lt by auto
    moreover have "map unat rest = [] \<or> hd (map unat rest) \<noteq> 0"
    proof (cases rest)
      case Nil then show ?thesis by simp
    next
      case (Cons r rs)
      then have "r \<noteq> 0" using hd_dropWhile[of "\<lambda>b. b = (0::byte)" bs] by (auto simp: rest_def)
      with Cons show ?thesis by (simp add: unsigned_eq_0_iff)
    qed
    ultimately show ?thesis unfolding BN_of_bytes_def by (intro digits_be_of_digits) auto
  qed
  have bytes: "map of_nat (map unat rest) = rest" by (simp add: map_idI)
  have tw: "takeWhile (\<lambda>c. c = CHR ''1'') (replicate z (CHR ''1'') @ cs) = replicate z (CHR ''1'')"
    using hdcs by (intro takeWhile_replicate_append) auto
  have dw: "dropWhile (\<lambda>c. c = CHR ''1'') (replicate z (CHR ''1'') @ cs) = cs"
    using hdcs by (intro dropWhile_replicate_append) auto
  have "bs58_decode (bs58_encode bs) = Some (replicate z 0 @ rest)"
    unfolding enc bs58_decode_def tw dw
    using valid by (simp add: idx num restd bytes del: map_map)
  moreover have "replicate z 0 @ rest = bs"
    using takeWhile_zero_replicate[of bs] takeWhile_dropWhile_id[of "\<lambda>b. b = 0" bs]
    by (simp add: z_def rest_def)
  ultimately show ?thesis by simp
qed

lemma digits_be_length: "2 \<le> b \<Longrightarrow> n < b ^ k \<Longrightarrow> length (digits_be b n) \<le> k"
proof (induction k arbitrary: n)
  case 0
  then show ?case by simp
next
  case (Suc k)
  show ?case
  proof (cases "n = 0")
    case True then show ?thesis by simp
  next
    case False
    from Suc.prems have "n div b < b ^ k"
      by (simp add: less_mult_imp_div_less mult.commute)
    with Suc have "length (digits_be b (n div b)) \<le> k" by simp
    with False Suc.prems(1) show ?thesis by (simp add: digits_be_rec)
  qed
qed

lemma from_digits_zeros: "from_digits b 0 (replicate z 0 @ ds) = from_digits b 0 ds"
  by (induction z) auto

lemma BN_of_bytes_zeros: "BN_of_bytes (replicate z 0 @ bs) = BN_of_bytes bs"
  using from_digits_zeros[of 256 z "map unat bs"] by (simp add: BN_of_bytes_def of_digits_def)

lemma unat_of_nat_byte: "d < 256 \<Longrightarrow> unat (of_nat d :: byte) = d"
  by (simp add: unat_of_nat)

lemma BN_of_bytes_toArrayLike: "BN_of_bytes (BN_toArrayLike n) = n"
proof (cases "n = 0")
  case True
  then show ?thesis by (simp add: BN_of_bytes_def BN_toArrayLike_def of_digits_def)
next
  case False
  have "map unat (map (of_nat :: nat \<Rightarrow> byte) (digits_be 256 n)) = digits_be 256 n"
    using digits_be_lt[of 256 _ n] by (simp add: map_idI unat_of_nat_byte)
  with False show ?thesis
    by (simp add: BN_of_bytes_def BN_toArrayLike_def of_digits_digits_be del: map_map)
qed

lemma BN_toArrayLike_length: "n < 2 ^ 256 \<Longrightarrow> length (BN_toArrayLike n) \<le> 32"
proof -
  assume "n < 2 ^ 256"
  then have "n < 256 ^ 32" by simp
  then have "length (digits_be 256 n) \<le> 32" by (intro digits_be_length) auto
  then show ?thesis by (simp add: BN_toArrayLike_def)
qed

lemma unat_PublicKey_lt: "unat (k :: PublicKey) < 2 ^ 256"
  using unsigned_less[of k] by simp

lemma toBuffer_length: "length (toBuffer k) = 32"
  using BN_toArrayLike_length[OF unat_PublicKey_lt, of k] by (simp add: toBuffer_def Let_def)

lemma BN_of_bytes_toBuffer: "BN_of_bytes (toBuffer k) = unat k"
  by (simp add: toBuffer_def Let_def BN_of_bytes_zeros BN_of_bytes_toArrayLike)

lemma PublicKey_of_bytes_toBuffer: "PublicKey_of_bytes (toBuffer k) = Inr k"
  using unat_PublicKey_lt[of k] by (simp add: PublicKey_of_bytes_def BN_of_bytes_toBuffer)

lemma PublicKey_of_string_toBase58: "PublicKey_of_string (toBase58 k) = Inr k"
  by (simp add: PublicKey_of_string_def toBase58_def bs58_decode_encode toBuffer_length
        PublicKey_of_bytes_toBuffer)

lemma toBase58_inject: "(toBase58 a = toBase58 b) = (a = b)"
proof
  assume "toBase58 a = toBase58 b"
  then have "PublicKey_of_string (toBase58 a) = PublicKey_of_string (toBase58 b)" by simp
  then show "a = b" by (simp add: PublicKey_of_string_toBase58)
qed simp

section \<open>Properties of compileMessage\<close>

lemma findIndex_None: "(findIndex P xs = None) = (\<forall>x \<in> set xs. \<not> P x)"
  by (induction xs) auto

lemma findIndex_Some:
  "findIndex P xs = Some i \<Longrightarrow> i < length xs \<and> P (xs ! i) \<and> (\<forall>j<i. \<not> P (xs ! j))"
proof (induction xs arbitrary: i)
  case Nil
  then show ?case by simp
next
  case (Cons x xs)
  show ?case
  proof (cases "P x")
    case True
    with Cons.prems show ?thesis by simp
  next
    case False
    with Cons.prems obtain k where k: "findIndex P xs = Some k" "i = Suc k" by auto
    from Cons.IH[OF k(1)] False k(2) show ?thesis by (auto simp: less_Suc_eq_0_disj)
  qed
qed

lemma map_update_same: "f v = f (u ! i) \<Longrightarrow> map f (u[i := v]) = map f u"
  by (induction u arbitrary: i) (auto split: nat.splits)

lemma cull_keys: "pubkey ` set (cull u ms) = pubkey ` set u \<union> pubkey ` set ms"
proof (induction ms arbitrary: u)
  case Nil
  show ?case by simp
next
  case (Cons m ms)
  show ?case
  proof (cases "findIndex (\<lambda>x. toBase58 (pubkey x) = toBase58 (pubkey m)) u")
    case None
    then show ?thesis by (simp add: Cons.IH)
  next
    case (Some i)
    let ?u = "u[i := (u ! i)\<lparr>isWritable := isWritable (u ! i) \<or> isWritable m\<rparr>]"
    from findIndex_Some[OF Some] have i: "i < length u" "pubkey (u ! i) = pubkey m"
      by (simp_all add: toBase58_inject)
    have "map pubkey ?u = map pubkey u"
      by (simp add: map_update_same)
    then have "set (map pubkey ?u) = set (map pubkey u)" by simp
    then have e: "pubkey ` set ?u = pubkey ` set u" by simp
    from i have "pubkey m \<in> pubkey ` set u" by (metis imageI nth_mem)
    with e Some show ?thesis by (auto simp: Cons.IH)
  qed
qed

lemma cull_distinct: "distinct (map pubkey u) \<Longrightarrow> distinct (map pubkey (cull u ms))"
proof (induction ms arbitrary: u)
  case Nil
  then show ?case by simp
next
  case (Cons m ms)
  show ?case
  proof (cases "findIndex (\<lambda>x. toBase58 (pubkey x) = toBase58 (pubkey m)) u")
    case None
    then have "pubkey m \<notin> set (map pubkey u)" by (auto simp: findIndex_None toBase58_inject)
    with Cons.prems have "distinct (map pubkey (u @ [m]))" by simp
    from Cons.IH[OF this] None show ?thesis by simp
  next
    case (Some i)
    have "map pubkey (u[i := (u ! i)\<lparr>isWritable := isWritable (u ! i) \<or> isWritable m\<rparr>]) = map pubkey u"
      by (simp add: map_update_same)
    with Cons.prems have "distinct (map pubkey (u[i := (u ! i)\<lparr>isWritable := isWritable (u ! i) \<or> isWritable m\<rparr>]))"
      by simp
    from Cons.IH[OF this] Some show ?thesis by simp
  qed
qed

definition has_signer :: "PublicKey \<Rightarrow> AccountMeta list \<Rightarrow> bool" where
  "has_signer k ms = (\<exists>m \<in> set ms. pubkey m = k \<and> isSigner m)"

definition has_writable :: "PublicKey \<Rightarrow> AccountMeta list \<Rightarrow> bool" where
  "has_writable k ms = (\<exists>m \<in> set ms. pubkey m = k \<and> isWritable m)"

lemma has_writable_update:
  assumes "i < length u" "pubkey (u ! i) = pubkey m"
  shows "has_writable k (u[i := (u ! i)\<lparr>isWritable := isWritable (u ! i) \<or> isWritable m\<rparr>]) =
         (has_writable k u \<or> (pubkey m = k \<and> isWritable m))"
proof -
  let ?v = "(u ! i)\<lparr>isWritable := isWritable (u ! i) \<or> isWritable m\<rparr>"
  let ?Q = "\<lambda>j. pubkey ((u[i := ?v]) ! j) = k \<and> isWritable ((u[i := ?v]) ! j)"
  let ?P = "\<lambda>j. pubkey (u ! j) = k \<and> isWritable (u ! j)"
  have other: "\<forall>j<length u. j \<noteq> i \<longrightarrow> ?Q j = ?P j" by simp
  have qi: "?Q i = (pubkey m = k \<and> (isWritable (u ! i) \<or> isWritable m))"
    using assms by simp
  have pi: "?P i = (pubkey m = k \<and> isWritable (u ! i))"
    using assms by simp
  have l: "has_writable k (u[i := ?v]) = (\<exists>j<length u. ?Q j)"
    unfolding has_writable_def by (metis in_set_conv_nth length_list_update)
  have r: "has_writable k u = (\<exists>j<length u. ?P j)"
    unfolding has_writable_def by (metis in_set_conv_nth)
  have "(\<exists>j<length u. ?Q j) = ((\<exists>j<length u. ?P j) \<or> (pubkey m = k \<and> isWritable m))"
  proof
    assume "\<exists>j<length u. ?Q j"
    then obtain j where j: "j < length u" "?Q j" by blast
    show "(\<exists>j<length u. ?P j) \<or> (pubkey m = k \<and> isWritable m)"
    proof (cases "j = i")
      case True
      with j qi pi assms(1) show ?thesis by blast
    next
      case False
      with j other show ?thesis by blast
    qed
  next
    assume "(\<exists>j<length u. ?P j) \<or> (pubkey m = k \<and> isWritable m)"
    then show "\<exists>j<length u. ?Q j"
    proof
      assume "\<exists>j<length u. ?P j"
      then obtain j where j: "j < length u" "?P j" by blast
      show ?thesis
      proof (cases "j = i")
        case True
        with j qi pi show ?thesis by blast
      next
        case False
        with j other show ?thesis by blast
      qed
    next
      assume "pubkey m = k \<and> isWritable m"
      with qi assms(1) show ?thesis by blast
    qed
  qed
  with l r show ?thesis by simp
qed

lemma cull_writable:
  "distinct (map pubkey u) \<Longrightarrow> x \<in> set (cull u ms) \<Longrightarrow>
     isWritable x = (has_writable (pubkey x) u \<or> has_writable (pubkey x) ms)"
proof (induction ms arbitrary: u)
  case Nil
  have "\<And>y. y \<in> set u \<Longrightarrow> pubkey y = pubkey x \<Longrightarrow> y = x"
    using Nil by (metis cull.simps(1) distinct_map inj_on_def)
  with Nil show ?case by (auto simp: has_writable_def)
next
  case (Cons m ms)
  show ?case
  proof (cases "findIndex (\<lambda>x. toBase58 (pubkey x) = toBase58 (pubkey m)) u")
    case None
    from None have "pubkey m \<notin> set (map pubkey u)" by (auto simp: findIndex_None toBase58_inject)
    with Cons.prems have d: "distinct (map pubkey (u @ [m]))" by simp
    from Cons.prems None have "x \<in> set (cull (u @ [m]) ms)" by simp
    from Cons.IH[OF d this] show ?thesis by (auto simp: has_writable_def)
  next
    case (Some i)
    let ?u = "u[i := (u ! i)\<lparr>isWritable := isWritable (u ! i) \<or> isWritable m\<rparr>]"
    from findIndex_Some[OF Some] have i: "i < length u" "pubkey (u ! i) = pubkey m"
      by (simp_all add: toBase58_inject)
    have "map pubkey ?u = map pubkey u" by (simp add: map_update_same)
    with Cons.prems have d: "distinct (map pubkey ?u)" by simp
    from Cons.prems Some have "x \<in> set (cull ?u ms)" by simp
    from Cons.IH[OF d this] has_writable_update[OF i]
    show ?thesis by (auto simp: has_writable_def)
  qed
qed

text \<open>Signers first: no signer stands after a meta that is not a signer.\<close>

definition signers_first :: "AccountMeta list \<Rightarrow> bool" where
  "signers_first ms = sorted_wrt (\<lambda>a b. b \<longrightarrow> a) (map isSigner ms)"

lemma has_signer_alt:
  "has_signer k ms = ((k, True) \<in> set (map (\<lambda>m. (pubkey m, isSigner m)) ms))"
  by (auto simp: has_signer_def)

lemma has_signer_update:
  "has_signer k (u[i := (u ! i)\<lparr>isWritable := w\<rparr>]) = has_signer k u"
proof -
  have "map (\<lambda>m. (pubkey m, isSigner m)) (u[i := (u ! i)\<lparr>isWritable := w\<rparr>]) =
        map (\<lambda>m. (pubkey m, isSigner m)) u"
    by (rule map_update_same) simp
  then show ?thesis unfolding has_signer_alt by (simp only:)
qed

lemma cull_signer:
  "distinct (map pubkey u) \<Longrightarrow> signers_first (u @ ms) \<Longrightarrow> x \<in> set (cull u ms) \<Longrightarrow>
     isSigner x = (has_signer (pubkey x) u \<or> has_signer (pubkey x) ms)"
proof (induction ms arbitrary: u)
  case Nil
  have "\<And>y. y \<in> set u \<Longrightarrow> pubkey y = pubkey x \<Longrightarrow> y = x"
    using Nil by (metis cull.simps(1) distinct_map inj_on_def)
  with Nil show ?case by (auto simp: has_signer_def)
next
  case (Cons m ms)
  show ?case
  proof (cases "findIndex (\<lambda>x. toBase58 (pubkey x) = toBase58 (pubkey m)) u")
    case None
    from None have "pubkey m \<notin> set (map pubkey u)" by (auto simp: findIndex_None toBase58_inject)
    with Cons.prems have d: "distinct (map pubkey (u @ [m]))" by simp
    from Cons.prems have s: "signers_first ((u @ [m]) @ ms)" by simp
    from Cons.prems None have "x \<in> set (cull (u @ [m]) ms)" by simp
    from Cons.IH[OF d s this] show ?thesis by (auto simp: has_signer_def)
  next
    case (Some i)
    let ?u = "u[i := (u ! i)\<lparr>isWritable := isWritable (u ! i) \<or> isWritable m\<rparr>]"
    from findIndex_Some[OF Some] have i: "i < length u" "pubkey (u ! i) = pubkey m"
      by (simp_all add: toBase58_inject)
    have "map pubkey ?u = map pubkey u" by (simp add: map_update_same)
    with Cons.prems have d: "distinct (map pubkey ?u)" by simp
    have sg: "map isSigner ?u = map isSigner u" by (simp add: map_update_same)
    from Cons.prems(2) have s: "signers_first (?u @ ms)"
      by (simp add: signers_first_def sg sorted_wrt_append)
    from Cons.prems(2) i(1) have first: "isSigner m \<longrightarrow> isSigner (u ! i)"
      by (auto simp: signers_first_def sorted_wrt_append)
    from Cons.prems Some have "x \<in> set (cull ?u ms)" by simp
    from Cons.IH[OF d s this] have "isSigner x = (has_signer (pubkey x) u \<or> has_signer (pubkey x) ms)"
      by (simp add: has_signer_update)
    moreover have "pubkey m = pubkey x \<and> isSigner m \<Longrightarrow> has_signer (pubkey x) u"
      using first i unfolding has_signer_def by (metis nth_mem)
    ultimately show ?thesis by (auto simp: has_signer_def)
  qed
qed

definition meta_rank :: "AccountMeta \<Rightarrow> nat" where
  "meta_rank m = (if isSigner m then 0 else 2) + (if isWritable m then 0 else 1)"

lemma compare_metas_rank: "(compare_metas x y \<le> 0) = (meta_rank x \<le> meta_rank y)"
  by (simp add: compare_metas_def meta_rank_def Let_def)

lemma set_insert_sorted: "set (insert_sorted cmp x ys) = insert x (set ys)"
  by (induction ys) auto

lemma set_Array_sort: "set (Array_sort cmp xs) = set xs"
  by (induction xs) (auto simp: set_insert_sorted)

lemma sorted_insert_sorted:
  "sorted (map meta_rank ys) \<Longrightarrow> sorted (map meta_rank (insert_sorted compare_metas x ys))"
  by (induction ys) (auto simp: compare_metas_rank set_insert_sorted)

lemma sorted_Array_sort: "sorted (map meta_rank (Array_sort compare_metas xs))"
  by (induction xs) (auto simp: sorted_insert_sorted)

lemma sorted_rank_signers_first: "sorted (map meta_rank ms) \<Longrightarrow> signers_first ms"
proof (induction ms)
  case Nil
  show ?case by (simp add: signers_first_def)
next
  case (Cons m ms)
  have "\<And>y. meta_rank m \<le> meta_rank y \<Longrightarrow> isSigner y \<Longrightarrow> isSigner m"
    by (auto simp: meta_rank_def split: if_splits)
  with Cons show ?case by (auto simp: signers_first_def)
qed

theorem cull_merges_flags:
  "distinct (map pubkey (cull [] (Array_sort compare_metas accountMetas)))
   \<and> set (map pubkey (cull [] (Array_sort compare_metas accountMetas))) = set (map pubkey accountMetas)
   \<and> (\<forall>u \<in> set (cull [] (Array_sort compare_metas accountMetas)).
         isSigner u = (\<exists>m \<in> set accountMetas. pubkey m = pubkey u \<and> isSigner m)
       \<and> isWritable u = (\<exists>m \<in> set accountMetas. pubkey m = pubkey u \<and> isWritable m))"
proof -
  let ?s = "Array_sort compare_metas accountMetas"
  have d: "distinct (map pubkey ([] :: AccountMeta list))" by simp
  have sf: "signers_first ([] @ ?s)"
    using sorted_rank_signers_first[OF sorted_Array_sort] by simp
  have k: "set (map pubkey (cull [] ?s)) = set (map pubkey accountMetas)"
    using cull_keys[of "[]" ?s] by (simp add: set_Array_sort)
  have f: "\<forall>u \<in> set (cull [] ?s).
         isSigner u = (\<exists>m \<in> set accountMetas. pubkey m = pubkey u \<and> isSigner m)
       \<and> isWritable u = (\<exists>m \<in> set accountMetas. pubkey m = pubkey u \<and> isWritable m)"
    using cull_signer[OF d sf] cull_writable[OF d, of _ ?s]
    by (simp add: has_signer_def has_writable_def set_Array_sort)
  from cull_distinct[OF d, of ?s] k f show ?thesis by blast
qed

section \<open>Properties of the wire codec\<close>

lemma and_0x7f: "(n::nat) AND 0x7f = n mod 128"
proof -
  have "(0x7f::nat) = mask 7" by (simp add: mask_eq_exp_minus_1)
  then have "n AND 0x7f = take_bit 7 n" by (simp only: take_bit_eq_mask)
  then show ?thesis by (simp add: take_bit_eq_mod)
qed

lemma int_and_0x7f: "(int n) AND 0x7f = int (n mod 128)"
proof -
  have "(0x7f::int) = mask 7" by (simp add: mask_eq_exp_minus_1)
  then have "int n AND 0x7f = take_bit 7 (int n)" by (simp only: take_bit_eq_mask)
  then show ?thesis by (simp add: take_bit_eq_mod zmod_int)
qed

lemma bit_128: "bit (128::nat) k = (k = 7)"
proof -
  have e: "(128::nat) = 2 ^ 7" by simp
  show ?thesis unfolding e bit_exp_iff by simp
qed

lemma or_0x80: "(n::nat) < 128 \<Longrightarrow> n OR 0x80 = n + 128"
proof -
  assume "n < 128"
  then have t: "take_bit 7 n = n" by (simp add: take_bit_nat_eq_self_iff)
  have "bit n k \<Longrightarrow> \<not> bit (128::nat) k" for k
  proof -
    assume b: "bit n k"
    with t have "bit (take_bit 7 n) k" by simp
    then have "k < 7" by (simp add: bit_take_bit_iff)
    then show ?thesis by (simp add: bit_128)
  qed
  then have "n + 128 = n OR 128" by (intro disjunctive_add) auto
  then show ?thesis by simp
qed

lemma and_0x80: "((n::nat) AND 0x80 = 0) = even (n div 128)"
  using and_exp_eq_0_iff_not_bit[of n 7] by (simp add: bit_iff_odd)

lemma to_int32_id: "0 \<le> x \<Longrightarrow> x < 2 ^ 31 \<Longrightarrow> to_int32 x = x"
  by (simp add: signed_take_bit_int_eq_self_iff to_int32_def)

lemma to_int32_negative: "- (2 ^ 31) \<le> x \<Longrightarrow> x < 0 \<Longrightarrow> to_int32 x = x"
  by (simp add: signed_take_bit_int_eq_self_iff to_int32_def)

text \<open>
  The 7-bit groups of a number, lowest first, each but the last with the bit \<open>0x80\<close> set:
  what \<open>encodeLength\<close> returns on a length below \<open>2^31\<close> (lemma \<open>encodeLength_groups\<close>).
\<close>

function length_groups :: "nat \<Rightarrow> nat list" where
  "length_groups n =
     (if n div 128 = 0 then [n mod 128] else (n mod 128 + 128) # length_groups (n div 128))"
  by pat_completeness auto
termination
proof (relation "measure (\<lambda>n. n)")
  show "wf (measure (\<lambda>n. n))" by simp
next
  fix n :: nat
  assume "n div 128 \<noteq> 0"
  then have "n div 128 < n" by (intro div_less_dividend) auto
  then show "(n div 128, n) \<in> measure (\<lambda>n. n)" by simp
qed

declare length_groups.simps [simp del]

lemma length_groups_small: "n < 128 \<Longrightarrow> length_groups n = [n]"
  by (subst length_groups.simps) simp

lemma length_groups_rec:
  "128 \<le> n \<Longrightarrow> length_groups n = (n mod 128 + 128) # length_groups (n div 128)"
  by (subst length_groups.simps) (simp add: div_eq_0_iff)

lemma int_or_0x80: "n < 128 \<Longrightarrow> nat (int n OR 0x80) = n + 128"
proof -
  assume a: "n < 128"
  have "int n OR 0x80 = int (n OR 0x80)" by (simp add: of_nat_or_eq)
  with a show ?thesis by (simp add: or_0x80)
qed

lemma encodeLength_loop_groups:
  "n < 2 ^ 31 \<Longrightarrow> encodeLength_loop (int n) = Some (length_groups n)"
proof (induction n rule: less_induct)
  case (less n)
  from less.prems have "int n < int (2 ^ 31)" by (simp only: of_nat_less_iff)
  then have i: "to_int32 (int n) = int n" by (simp add: to_int32_id)
  have d: "drop_bit 7 (int n) = int (n div 128)" by (simp add: drop_bit_eq_div zdiv_int)
  show ?case
  proof (cases "n < 128")
    case True
    then show ?thesis
      by (subst encodeLength_loop.simps) (simp add: i d int_and_0x7f length_groups_small)
  next
    case False
    then have ge: "128 \<le> n" by simp
    then have lt: "n div 128 < n" by (intro div_less_dividend) auto
    from ge have nz: "n div 128 \<noteq> 0" by (simp add: div_eq_0_iff)
    from lt less.prems have "n div 128 < 2 ^ 31" by simp
    from less.IH[OF lt this] nz show ?thesis
      by (subst encodeLength_loop.simps)
        (simp add: i d int_and_0x7f int_or_0x80 length_groups_rec[OF ge] Let_def)
  qed
qed

lemma encodeLength_groups: "n < 2 ^ 31 \<Longrightarrow> encodeLength n = Some (length_groups n)"
  by (simp add: encodeLength_def encodeLength_loop_groups)

lemma encodeLength_small: "n < 128 \<Longrightarrow> encodeLength n = Some [n]"
  by (simp add: encodeLength_groups length_groups_small)

text \<open>On a negative 32-bit number the loop of \<open>encodeLength\<close> does not end.\<close>

lemma encodeLength_loop_negative:
  assumes "encodeLength_loop x = Some y"
  shows "\<not> (- (2 ^ 31) \<le> x \<and> x < 0)"
proof (rule encodeLength_loop.raw_induct[where P = "\<lambda>x y. \<not> (- (2 ^ 31) \<le> x \<and> x < 0)", OF _ assms])
  fix f :: "int \<Rightarrow> nat list option" and x :: int and y :: "nat list"
  assume IH: "\<And>x y. f x = Some y \<Longrightarrow> \<not> (- (2 ^ 31) \<le> x \<and> x < 0)"
    and st: "(let elem = to_int32 x AND 0x7f; rem_len' = drop_bit 7 (to_int32 x)
              in if rem_len' = 0 then Some [nat elem]
                 else Option.bind (f rem_len') (\<lambda>bytes. Some (nat (elem OR 0x80) # bytes))) = Some y"
  show "\<not> (- (2 ^ 31) \<le> x \<and> x < 0)"
  proof
    assume r: "- (2 ^ 31) \<le> x \<and> x < 0"
    then have i: "to_int32 x = x" by (simp add: to_int32_negative)
    from r have n: "drop_bit 7 x < 0" by simp
    from r have "(- (2 ^ 31)) div 128 \<le> x div (128::int)" by (intro zdiv_mono1) auto
    then have "- (2 ^ 31) \<le> drop_bit 7 x" by (simp add: drop_bit_eq_div)
    with n IH[of "drop_bit 7 x"] have "f (drop_bit 7 x) = None" by (cases "f (drop_bit 7 x)") auto
    with st n show False by (simp add: i Let_def)
  qed
qed

lemma to_int32_wrap:
  assumes "2 ^ 31 \<le> x" "x < 2 ^ 32"
  shows "to_int32 x = x - 2 ^ 32"
proof -
  have e: "x + 2147483648 = (x - 2147483648) + (4294967296::int)" by simp
  have m: "(x + 2147483648) mod 4294967296 = (x - 2147483648) mod (4294967296::int)"
    by (subst e) (simp only: mod_add_self2)
  have "to_int32 x = to_int32 (x - 2 ^ 32)"
    unfolding to_int32_def by (simp add: signed_take_bit_eq_take_bit_shift take_bit_eq_mod m)
  also have "\<dots> = x - 2 ^ 32" using assms by (intro to_int32_negative) auto
  finally show ?thesis .
qed

lemma encodeLength_diverges:
  assumes "2 ^ 31 \<le> n" "n < 2 ^ 32"
  shows "encodeLength n = None"
proof -
  define x where "x = int n - 2 ^ 32"
  from assms(1) have "int (2 ^ 31) \<le> int n" by (simp only: of_nat_le_iff)
  moreover from assms(2) have "int n < int (2 ^ 32)" by (simp only: of_nat_less_iff)
  ultimately have r: "- (2 ^ 31) \<le> x \<and> x < 0" and w: "to_int32 (int n) = x"
    by (simp_all add: x_def to_int32_wrap)
  from r have n: "drop_bit 7 x < 0" by simp
  from r have "(- (2 ^ 31)) div 128 \<le> x div (128::int)" by (intro zdiv_mono1) auto
  then have "- (2 ^ 31) \<le> drop_bit 7 x" by (simp add: drop_bit_eq_div)
  with n encodeLength_loop_negative[of "drop_bit 7 x"]
  have "encodeLength_loop (drop_bit 7 x) = None"
    by (cases "encodeLength_loop (drop_bit 7 x)") auto
  moreover from n have "drop_bit 7 x \<noteq> 0" by linarith
  ultimately show ?thesis
    unfolding encodeLength_def by (subst encodeLength_loop.simps) (simp add: w Let_def)
qed

lemma or_push_bit_add:
  "0 \<le> a \<Longrightarrow> a < 2 ^ s \<Longrightarrow> (a::int) OR push_bit s x = a + push_bit s x"
proof -
  assume "0 \<le> a" "a < 2 ^ s"
  then have t: "take_bit s a = a" by (simp add: take_bit_int_eq_self)
  have "take_bit s a OR push_bit s x = take_bit s a + push_bit s x"
    using concat_bit_eq[of s a x] by (simp add: concat_bit_def)
  with t show ?thesis by simp
qed

lemma decodeLength_loop_Cons:
  "decodeLength_loop len sz (elem # bytes) =
     (if even (elem div 128)
      then (to_int32 (len OR to_int32 (push_bit ((sz * 7) mod 32) (int (elem mod 128)))), bytes)
      else decodeLength_loop
             (to_int32 (len OR to_int32 (push_bit ((sz * 7) mod 32) (int (elem mod 128)))))
             (Suc sz) bytes)"
  by (simp add: int_and_0x7f and_0x80 Let_def)

lemma decodeLength_loop_groups:
  "acc < 2 ^ (7 * s) \<Longrightarrow> acc + n * 2 ^ (7 * s) < 2 ^ 31 \<Longrightarrow>
     decodeLength_loop (int acc) s (length_groups n @ rest) = (int (acc + n * 2 ^ (7 * s)), rest)"
proof (induction n arbitrary: acc s rule: less_induct)
  case (less n)
  define x where "x = (n mod 128) * 2 ^ (7 * s)"
  have xle: "x \<le> n * 2 ^ (7 * s)" by (simp add: x_def)
  have shift: "push_bit ((s * 7) mod 32) (int (n mod 128)) = int x"
  proof (cases "n mod 128 = 0")
    case True
    then show ?thesis by (simp add: x_def)
  next
    case False
    then have "0 < n" by (cases "n = 0") auto
    have "2 ^ (7 * s) \<le> n * 2 ^ (7 * (s::nat))" using \<open>0 < n\<close> by simp
    with less.prems(2) have "(2::nat) ^ (7 * s) < 2 ^ 31" by linarith
    then have "7 * s < 31" by (rule power_less_imp_less_exp[of 2, rotated]) simp
    then have "(s * 7) mod 32 = 7 * s" by (simp add: mult.commute)
    then show ?thesis by (simp add: x_def push_bit_eq_mult)
  qed
  have "x < 2 ^ 31" using xle less.prems(2) by linarith
  then have "int x < int (2 ^ 31)" by (simp only: of_nat_less_iff)
  then have x31: "int x < 2 ^ 31" by simp
  have accx: "int acc OR int x = int (acc + x)"
  proof -
    have "int acc OR push_bit (7 * s) (int (n mod 128)) = int acc + push_bit (7 * s) (int (n mod 128))"
      using less.prems(1) by (intro or_push_bit_add) (simp_all flip: of_nat_power add: of_nat_less_iff del: of_nat_power)
    then show ?thesis by (simp add: x_def push_bit_eq_mult)
  qed
  have "acc + x < 2 ^ 31" using xle less.prems(2) by linarith
  then have "int (acc + x) < int (2 ^ 31)" by (simp only: of_nat_less_iff)
  then have acc31: "int (acc + x) < 2 ^ 31" by simp
  have step: "to_int32 (int acc OR to_int32 (push_bit ((s * 7) mod 32) (int (n mod 128)))) = int (acc + x)"
    using x31 acc31 by (simp add: shift to_int32_id accx)
  show ?case
  proof (cases "n < 128")
    case True
    then have "x = n * 2 ^ (7 * s)" by (simp add: x_def)
    with True step show ?thesis
      by (simp add: length_groups_small decodeLength_loop_Cons del: decodeLength_loop.simps)
  next
    case False
    then have ge: "128 \<le> n" by simp
    then have lt: "n div 128 < n" by (intro div_less_dividend) auto
    have cont: "\<not> even ((n mod 128 + 128) div 128)"
      by (simp add: div_add_self2)
    have m: "(n mod 128 + 128) mod 128 = n mod 128" by simp
    have p: "(2::nat) ^ (7 * Suc s) = 128 * 2 ^ (7 * s)" by (simp add: power_add)
    have a1: "acc + x < 2 ^ (7 * Suc s)"
    proof -
      have "x \<le> 127 * 2 ^ (7 * s)" by (simp add: x_def)
      with less.prems(1) have "acc + x < 128 * 2 ^ (7 * s)" by simp
      then show ?thesis unfolding p by simp
    qed
    have g: "a * k + d * (128 * k) = (a + 128 * d) * k" for a d k :: nat
      by (simp add: algebra_simps)
    have "x + (n div 128) * (128 * 2 ^ (7 * s)) = (n mod 128 + 128 * (n div 128)) * 2 ^ (7 * s)"
      unfolding x_def by (rule g)
    also have "n mod 128 + 128 * (n div 128) = n" by simp
    finally have e: "acc + x + (n div 128) * 2 ^ (7 * Suc s) = acc + n * 2 ^ (7 * s)"
      unfolding p by simp
    with less.prems(2) have a2: "acc + x + (n div 128) * 2 ^ (7 * Suc s) < 2 ^ 31" by simp
    have "decodeLength_loop (int acc) s (length_groups n @ rest) =
          decodeLength_loop (int acc) s ((n mod 128 + 128) # (length_groups (n div 128) @ rest))"
      by (simp add: length_groups_rec[OF ge])
    also have "\<dots> = decodeLength_loop (int (acc + x)) (Suc s) (length_groups (n div 128) @ rest)"
      unfolding decodeLength_loop_Cons m step using cont by (simp only: if_False)
    also have "\<dots> = (int (acc + x + (n div 128) * 2 ^ (7 * Suc s)), rest)"
      by (rule less.IH[OF lt a1 a2])
    finally show ?thesis unfolding e .
  qed
qed

lemma decodeLength_groups:
  "n < 2 ^ 31 \<Longrightarrow> decodeLength (length_groups n @ rest) = (int n, rest)"
  using decodeLength_loop_groups[of 0 0 n rest] by (simp add: decodeLength_def)

lemma decodeLength_encodeLength:
  "n < 2 ^ 31 \<Longrightarrow> \<exists>bytes. encodeLength n = Some bytes \<and> decodeLength (bytes @ rest) = (int n, rest)"
  by (simp add: encodeLength_groups decodeLength_groups)

lemma length_groups_byte: "x \<in> set (length_groups n) \<Longrightarrow> x < 256"
proof (induction n arbitrary: x rule: less_induct)
  case (less n)
  show ?case
  proof (cases "n < 128")
    case True
    with less.prems show ?thesis by (simp add: length_groups_small)
  next
    case False
    then have ge: "128 \<le> n" by simp
    then have lt: "n div 128 < n" by (intro div_less_dividend) auto
    have "n mod 128 + 128 < 256" by (simp add: less_le_trans[OF mod_less_divisor])
    with less.prems less.IH[OF lt] show ?thesis by (auto simp: length_groups_rec[OF ge])
  qed
qed

lemma length_groups_length: "n < 2 ^ 14 \<Longrightarrow> length (length_groups n) \<le> 2"
  by (cases "n < 128") (simp_all add: length_groups_small length_groups_rec less_mult_imp_div_less)

section \<open>Properties of the fee payer\<close>







lemma apply_nonceInfo_feePayer [simp]:
  "feePayer (apply_nonceInfo tx) = feePayer tx" "signatures (apply_nonceInfo tx) = signatures tx"
  by (simp_all add: apply_nonceInfo_def split: option.splits)











section \<open>Properties of the program addresses\<close>

lemma BN_of_bytes_toArray: "BN_of_bytes (BN_toArray n len) = n"
proof -
  have "map unat (map (of_nat :: nat \<Rightarrow> byte) (digits_be 256 n)) = digits_be 256 n"
    using digits_be_lt[of 256 _ n] by (simp add: map_idI unat_of_nat_byte)
  then have "BN_of_bytes (map of_nat (digits_be 256 n)) = n"
    by (simp add: BN_of_bytes_def of_digits_digits_be del: map_map)
  then show ?thesis by (simp add: BN_toArray_def BN_of_bytes_zeros)
qed

lemma toBuffer_toArray: "toBuffer k = BN_toArray (unat k) 32"
proof (cases "unat k = 0")
  case True
  then show ?thesis
    by (simp add: toBuffer_def BN_toArrayLike_def BN_toArray_def replicate_numeral)
next
  case False
  have "length (BN_toArrayLike (unat k)) \<le> 32"
    by (rule BN_toArrayLike_length[OF unat_PublicKey_lt])
  with False show ?thesis
    by (auto simp: toBuffer_def BN_toArrayLike_def BN_toArray_def Let_def)
qed

lemma PublicKey_of_bytes_toArray: "PublicKey_of_bytes (BN_toArray (unat (h :: 256 word)) 32) = Inr h"
  using PublicKey_of_bytes_toBuffer[of h] by (simp add: toBuffer_toArray)


lemma concat_seeds_long:
  "\<exists>seed \<in> set seeds. length seed > MAX_SEED_LENGTH \<Longrightarrow>
     concat_seeds buffer seeds = Inl MaxSeedLengthExceeded"
  by (induction seeds arbitrary: buffer) auto

lemma concat_seeds_short:
  "\<forall>seed \<in> set seeds. length seed \<le> MAX_SEED_LENGTH \<Longrightarrow>
     concat_seeds buffer seeds = Inr (buffer @ concat seeds)"
  by (induction seeds arbitrary: buffer) auto


lemma createProgramAddress_nonce_no_TypeError:
  assumes "\<forall>seed \<in> set seeds. length seed \<le> MAX_SEED_LENGTH"
  shows "createProgramAddress ll sha256 (seeds @ [[b]]) program \<noteq> Inl MaxSeedLengthExceeded"
proof -
  have "\<forall>seed \<in> set (seeds @ [[b]]). length seed \<le> MAX_SEED_LENGTH"
    using assms by (auto simp: MAX_SEED_LENGTH_def)
  from concat_seeds_short[OF this] show ?thesis
    by (auto simp: createProgramAddress_def PublicKey_of_bytes_def Let_def)
qed

lemma find_nonce_search:
  assumes "\<forall>seed \<in> set seeds. length seed \<le> MAX_SEED_LENGTH"
  shows "case find_nonce ll sha256 seeds program n of
           Inr (address, nc) \<Rightarrow>
             0 < nc \<and> nc \<le> n
             \<and> createProgramAddress ll sha256 (seeds @ [[of_nat nc]]) program = Inr address
             \<and> (\<forall>k. nc < k \<and> k \<le> n \<longrightarrow>
                    isl (createProgramAddress ll sha256 (seeds @ [[of_nat k]]) program))
         | Inl e \<Rightarrow>
             e = NonceExhausted
             \<and> (\<forall>k. 0 < k \<and> k \<le> n \<longrightarrow>
                    isl (createProgramAddress ll sha256 (seeds @ [[of_nat k]]) program))"
proof (induction n)
  case 0
  show ?case by simp
next
  case (Suc n)
  let ?c = "createProgramAddress ll sha256 (seeds @ [[of_nat (Suc n)]]) program"
  show ?case
  proof (cases ?c)
    case (Inr address)
    then show ?thesis by auto
  next
    case (Inl e)
    with createProgramAddress_nonce_no_TypeError[OF assms, of ll sha256 "of_nat (Suc n)" program]
    have ne: "e \<noteq> MaxSeedLengthExceeded" by auto
    with Inl have step: "find_nonce ll sha256 seeds program (Suc n) = find_nonce ll sha256 seeds program n"
      by (cases e) simp_all
    have last: "isl ?c" using Inl by simp
    show ?thesis
    proof (cases "find_nonce ll sha256 seeds program n")
      case (Inl e')
      with Suc last show ?thesis unfolding step by (auto simp: le_Suc_eq)
    next
      case (Inr r)
      obtain address nc where r: "r = (address, nc)" by (cases r)
      with Inr Suc last show ?thesis unfolding step by (auto simp: le_Suc_eq)
    qed
  qed
qed

lemma find_nonce_long:
  assumes "\<exists>seed \<in> set seeds. length seed > MAX_SEED_LENGTH"
  shows "find_nonce ll sha256 seeds program (Suc n) = Inl MaxSeedLengthExceeded"
proof -
  from assms have "\<exists>seed \<in> set (seeds @ [[of_nat (Suc n)]]). length seed > MAX_SEED_LENGTH"
    by auto
  from concat_seeds_long[OF this] show ?thesis
    by (simp add: createProgramAddress_def)
qed

text \<open>
  Claim C5, amended. When a seed is longer than 32 bytes, \<open>findProgramAddress\<close> fails
  with the seed-length error that \<open>createProgramAddress\<close> throws at the first nonce, not
  with the exhausted-nonce error. Otherwise it returns the pair of an address and a
  nonce exactly when the nonce is the first one, from 255 down to 1, for which
  \<open>createProgramAddress\<close> on the seeds and the one-byte nonce succeeds, and the address
  is what that call returns; and it fails, with the exhausted-nonce error, exactly when
  the call fails for every nonce from 255 down to 1.
\<close>

theorem findProgramAddress_search:
  "if \<exists>seed \<in> set seeds. length seed > MAX_SEED_LENGTH
   then findProgramAddress ll sha256 seeds program = Inl MaxSeedLengthExceeded
   else (case findProgramAddress ll sha256 seeds program of
           Inr (address, nc) \<Rightarrow>
             0 < nc \<and> nc \<le> 255
             \<and> createProgramAddress ll sha256 (seeds @ [[of_nat nc]]) program = Inr address
             \<and> (\<forall>k. nc < k \<and> k \<le> 255 \<longrightarrow>
                    isl (createProgramAddress ll sha256 (seeds @ [[of_nat k]]) program))
         | Inl e \<Rightarrow>
             e = NonceExhausted
             \<and> (\<forall>k. 0 < k \<and> k \<le> 255 \<longrightarrow>
                    isl (createProgramAddress ll sha256 (seeds @ [[of_nat k]]) program)))"
proof (cases "\<exists>seed \<in> set seeds. length seed > MAX_SEED_LENGTH")
  case True
  have "(255::nat) = Suc 254" by simp
  with find_nonce_long[OF True, where n = 254 and ll = ll and ?sha256.0 = sha256 and program = program]
    True show ?thesis
    unfolding findProgramAddress_def by (simp only: if_True)
next
  case False
  then have short: "\<forall>seed \<in> set seeds. length seed \<le> MAX_SEED_LENGTH" by auto
  from False find_nonce_search[OF short, where n = 255 and ll = ll and ?sha256.0 = sha256 and program = program]
  show ?thesis
    unfolding findProgramAddress_def by (simp only: if_False)
qed

lemma pow2523_loop_numeral:
  "pow2523_loop q (numeral k) c i =
     pow2523_loop q (pred_numeral k)
       (if pred_numeral k \<noteq> 1 then ((c * c) mod q * i) mod q else (c * c) mod q) i"
  by (simp add: numeral_eq_Suc[of k])

lemma to_bytes_le_numeral:
  "to_bytes_le (numeral k) n = of_nat (n mod 256) # to_bytes_le (pred_numeral k) (n div 256)"
  by (simp add: numeral_eq_Suc[of k])

lemma BN_toArray_byte: "0 < n \<Longrightarrow> n < 256 \<Longrightarrow> BN_toArray n 32 = replicate 31 0 @ [of_nat n]"
  by (simp add: BN_toArray_def digits_be_rec)

lemma bytes_le_zeros: "bytes_le (replicate k 0 @ bs) = 256 ^ k * bytes_le bs"
  by (induction k) auto

lemma small_lowlevel_simps:
  "S small_lowlevel a = (a * a) mod 13" "M small_lowlevel a b = (a * b) mod 13"
  "A small_lowlevel a b = (a + b) mod 13" "Z small_lowlevel a b = (a + 13 - b mod 13) mod 13"
  "D small_lowlevel = 2" "pow2523 small_lowlevel i = pow2523_loop 13 251 i i"
  "unpack25519 small_lowlevel n = (bytes_le n mod 2 ^ 255) mod 13"
  "pack25519 small_lowlevel a = to_bytes_le 32 (a mod 13)"
  "crypto_verify_32 small_lowlevel x y = (if x = y then 0 else - 1)"
  "gf_of small_lowlevel limbs = limbs_value limbs mod 13"
  by (simp_all add: small_lowlevel_def field_lowlevel_def)

lemmas curve_eval = is_on_curve_def isOnCurve_def neq25519_def gf1_def gf_I_def small_lowlevel_simps
  pow2523_loop_numeral to_bytes_le_numeral bytes_le_zeros Let_def

lemma small_on_curve_255: "is_on_curve small_lowlevel (replicate 31 0 @ [255]) = 1"
  by (simp add: curve_eval cong: let_weak_cong)

lemma small_on_curve_254: "is_on_curve small_lowlevel (replicate 31 0 @ [254]) = 0"
  by (simp add: curve_eval cong: let_weak_cong)

lemma small_create_255:
  "createProgramAddress small_lowlevel first_byte_digest [[255]] 0 = Inl InvalidSeeds"
  by (simp add: createProgramAddress_def MAX_SEED_LENGTH_def first_byte_digest_def
        BN_toArray_byte small_on_curve_255)

lemma small_create_254:
  "createProgramAddress small_lowlevel first_byte_digest [[254]] 0 = Inr 254"
  using PublicKey_of_bytes_toArray[of 254]
  by (simp add: createProgramAddress_def MAX_SEED_LENGTH_def first_byte_digest_def
        BN_toArray_byte small_on_curve_254)


text \<open>
  C5 on the stand-ins, with no seeds: nonce 255 fails, nonce 254 succeeds, and
  \<open>findProgramAddress\<close> returns the address of nonce 254 with the nonce 254.
\<close>

theorem findProgramAddress_search_witness:
  "findProgramAddress small_lowlevel first_byte_digest [] 0 = Inr (254, 254)"
proof -
  have short: "\<not> (\<exists>seed \<in> set ([] :: byte list list). length seed > MAX_SEED_LENGTH)" by simp
  note s = findProgramAddress_search[of "[]" small_lowlevel first_byte_digest 0,
      unfolded if_not_P[OF short]]
  show ?thesis
  proof (cases "findProgramAddress small_lowlevel first_byte_digest [] 0")
    case (Inl e)
    with s have "\<forall>k. 0 < k \<and> k \<le> 255 \<longrightarrow>
        isl (createProgramAddress small_lowlevel first_byte_digest ([] @ [[of_nat k]]) 0)"
      by simp
    from this[rule_format, of 254]
    have "isl (createProgramAddress small_lowlevel first_byte_digest [[254]] 0)" by simp
    with small_create_254 show ?thesis by simp
  next
    case (Inr r)
    obtain address nc where r: "r = (address, nc)" by (cases r)
    from s Inr r have n: "0 < nc" "nc \<le> 255"
      and c: "createProgramAddress small_lowlevel first_byte_digest ([] @ [[of_nat nc]]) 0 = Inr address"
      and a: "\<forall>k. nc < k \<and> k \<le> 255 \<longrightarrow>
                isl (createProgramAddress small_lowlevel first_byte_digest ([] @ [[of_nat k]]) 0)"
      by simp_all
    have "nc \<ge> 254"
    proof (rule ccontr)
      assume "\<not> nc \<ge> 254"
      with a[rule_format, of 254]
      have "isl (createProgramAddress small_lowlevel first_byte_digest [[254]] 0)" by simp
      with small_create_254 show False by simp
    qed
    moreover have "nc \<noteq> 255"
    proof
      assume "nc = 255"
      with c small_create_255 show False by simp
    qed
    ultimately have "nc = 254" using n by simp
    with c small_create_254 have "address = 254" by simp
    with Inr r \<open>nc = 254\<close> show ?thesis by simp
  qed
qed

text \<open>
  Claim C5 as it is stated fails on a seed of 33 bytes: no nonce works (the call for
  nonce 1, as for every nonce, fails), yet \<open>findProgramAddress\<close> does not end with the
  exhausted-nonce error but with the seed-length error.
\<close>

theorem findProgramAddress_long_seed_counterexample:
  "findProgramAddress small_lowlevel first_byte_digest [replicate 33 0] 0 = Inl MaxSeedLengthExceeded
   \<and> findProgramAddress small_lowlevel first_byte_digest [replicate 33 0] 0 \<noteq> Inl NonceExhausted
   \<and> createProgramAddress small_lowlevel first_byte_digest [replicate 33 0, [1]] 0 =
       Inl MaxSeedLengthExceeded"
proof -
  have "(255::nat) = Suc 254" by simp
  then have "findProgramAddress small_lowlevel first_byte_digest [replicate 33 0] 0 =
      Inl MaxSeedLengthExceeded"
    unfolding findProgramAddress_def
    by (simp only: find_nonce.simps) (simp add: createProgramAddress_def MAX_SEED_LENGTH_def)
  moreover have "createProgramAddress small_lowlevel first_byte_digest [replicate 33 0, [1]] 0 =
       Inl MaxSeedLengthExceeded"
    by (simp add: createProgramAddress_def MAX_SEED_LENGTH_def)
  ultimately show ?thesis by simp
qed

section \<open>Evaluation of the concrete transactions\<close>

lemma zero_blockhash_not_Nil: "zero_blockhash \<noteq> []"
  by (simp add: zero_blockhash_def)

lemma bs58_decode_zero: "bs58_decode zero_blockhash = Some (replicate 32 0)"
  by (simp add: bs58_decode_def zero_blockhash_def ALPHABET_def of_digits_def replicate_numeral)

lemma bs58_decode_Nil: "bs58_decode [] = Some []"
  by (simp add: bs58_decode_def of_digits_def)

lemma bs58_encode_Nil: "bs58_encode [] = []"
  by (simp add: bs58_encode_def BN_of_bytes_def of_digits_def)

lemmas compile_eval = compileMessage_def compiled_metas_def compile_checked_def apply_nonceInfo_def
  choose_feePayer_def compile_metas_def collect_metas_def programId_meta_def
  PublicKey_of_string_toBase58 toBase58_inject compare_metas_def move_feePayer_def
  compile_header_def compile_accountKeys_def indexOf_checked_def compile_instruction_def
  Message_new_def build_message_def bs58_encode_Nil zero_blockhash_not_Nil Let_def

lemmas serialize_eval = Message_serialize_def serialize_buffers_def prepare_instruction_def encode_instruction_def
  encode_u8_def encode_blob_def write_at_def Buffer_copy_def Buffer_alloc_def Buffer_from_def
  PACKET_DATA_SIZE_def PUBKEY_LENGTH_def encodeLength_small bs58_decode_zero bs58_decode_Nil
  toBuffer_length Let_def

lemmas sign_eval = sign_def compile_def partialSign'_def addSignature'_def serialize_check_def



text \<open>
  Claim C2 at \<open>ordering_tx\<close>. Key 3 is a read-only signer and key 2 a writable signer
  (its second meta made the first one writable after the sort), yet the key table has
  key 3 at index 1 before key 2 at index 2: a read-only signer stands before a writable
  one. By the header (one read-only signer among three) index 1 counts as writable and
  index 2 as read-only.
\<close>

theorem compileMessage_writable_order_broken:
  "compiled_metas ordering_tx =
     Some [\<lparr>pubkey = 1, isSigner = True, isWritable = True\<rparr>,
           \<lparr>pubkey = 3, isSigner = True, isWritable = False\<rparr>,
           \<lparr>pubkey = 2, isSigner = True, isWritable = True\<rparr>,
           \<lparr>pubkey = 4, isSigner = False, isWritable = False\<rparr>]
   \<and> fst (compileMessage ordering_tx) = Inr ordering_message
   \<and> isAccountWritable ordering_message 1
   \<and> \<not> isAccountWritable ordering_message 2"
  by (simp add: ordering_tx_def ordering_message_def compile_eval isAccountWritable_def)

text \<open>
  The dedup property (C3) at the metas of \<open>ordering_tx\<close> and its program: one entry
  per key, and key 2 is a signer and writable, as its two metas are between them.
\<close>

theorem cull_merges_flags_witness:
  "distinct (map pubkey (cull [] (Array_sort compare_metas
      (concat (map keys (instructions ordering_tx)) @ [\<lparr>pubkey = 4, isSigner = False, isWritable = False\<rparr>]))))
   \<and> cull [] (Array_sort compare_metas
      (concat (map keys (instructions ordering_tx)) @ [\<lparr>pubkey = 4, isSigner = False, isWritable = False\<rparr>])) =
     [\<lparr>pubkey = 3, isSigner = True, isWritable = False\<rparr>,
      \<lparr>pubkey = 2, isSigner = True, isWritable = True\<rparr>,
      \<lparr>pubkey = 4, isSigner = False, isWritable = False\<rparr>]"
proof -
  let ?ms = "concat (map keys (instructions ordering_tx)) @ [\<lparr>pubkey = 4, isSigner = False, isWritable = False\<rparr>]"
  have "distinct (map pubkey (cull [] (Array_sort compare_metas ?ms)))"
    using cull_merges_flags[of ?ms] by blast
  moreover have "cull [] (Array_sort compare_metas ?ms) =
     [\<lparr>pubkey = 3, isSigner = True, isWritable = False\<rparr>,
      \<lparr>pubkey = 2, isSigner = True, isWritable = True\<rparr>,
      \<lparr>pubkey = 4, isSigner = False, isWritable = False\<rparr>]"
    by (simp add: ordering_tx_def compile_eval)
  ultimately show ?thesis by simp
qed

text \<open>
  Claim C4 at \<open>two_signer_tx\<close>, signed by key 1 alone. The message needs the
  signatures of keys 1 and 2; \<open>sign\<close> fills the slot of key 1, leaves the slot of key 2
  \<open>null\<close>, and returns normally, although the verification it runs on these very
  signatures yields false. \<open>serialize\<close> on the transaction that \<open>sign\<close> left does
  throw the verification error.
\<close>

theorem sign_drops_verification_result:
  "sign accepting_nacl [signer_1] two_signer_tx =
     Some (Inr (),
           two_signer_tx\<lparr>signatures :=
             [\<lparr>signature = Some (replicate 64 1), publicKey = Some 1\<rparr>,
              \<lparr>signature = None, publicKey = Some 2\<rparr>]\<rparr>)
   \<and> verifySignatures' accepting_nacl signData True
        (signatures (snd (the (sign accepting_nacl [signer_1] two_signer_tx)))) = Inr False
   \<and> map_option fst (serialize_check accepting_nacl True True
        (snd (the (sign accepting_nacl [signer_1] two_signer_tx)))) =
       Some (Inl SignatureVerificationFailed)"
proof -
  have s: "sign accepting_nacl [signer_1] two_signer_tx =
     Some (Inr (),
           two_signer_tx\<lparr>signatures :=
             [\<lparr>signature = Some (replicate 64 1), publicKey = Some 1\<rparr>,
              \<lparr>signature = None, publicKey = Some 2\<rparr>]\<rparr>)"
    by (simp add: two_signer_tx_def signer_1_def accepting_nacl_def sign_eval compile_eval serialize_eval)
  have v: "verifySignatures' accepting_nacl signData True
        [\<lparr>signature = Some (replicate 64 1), publicKey = Some 1\<rparr>,
         \<lparr>signature = None, publicKey = Some 2\<rparr>] = Inr False"
    by (simp add: accepting_nacl_def)
  have c: "map_option fst (serialize_check accepting_nacl True True
        (two_signer_tx\<lparr>signatures :=
        [\<lparr>signature = Some (replicate 64 1), publicKey = Some 1\<rparr>,
         \<lparr>signature = None, publicKey = Some 2\<rparr>]\<rparr>)) = Some (Inl SignatureVerificationFailed)"
    by (simp add: two_signer_tx_def accepting_nacl_def sign_eval compile_eval serialize_eval)
  from s v c show ?thesis by simp
qed

end
